theory Spec2Isabelle
  imports Main
begin

section \<open>Span data (trace/model/types.ts)\<close>

text \<open>
  The enum \<open>SpanKind\<close> has the members \<open>SPAN_KIND_UNSPECIFIED = 0\<close>, \<open>SERVER = 1\<close> and
  \<open>CLIENT = 2\<close>. Only the first one is falsy in a JavaScript condition.
\<close>

datatype SpanKind = SPAN_KIND_UNSPECIFIED | SERVER | CLIENT

fun truthy_kind :: "SpanKind \<Rightarrow> bool" where
  "truthy_kind SPAN_KIND_UNSPECIFIED = False"
| "truthy_kind SERVER = True"
| "truthy_kind CLIENT = True"

text \<open>An attribute value is a string, a number or a boolean; numbers are payload only.\<close>

datatype AttributeValue = AttrString string | AttrNumber int | AttrBoolean bool

type_synonym Attributes = "string \<rightharpoonup> AttributeValue"

datatype TimeEvent =
    Annotation string int "Attributes option"
  | MessageEvent string string

record Link =
  link_traceId :: string
  link_spanId :: string
  link_type :: string
  link_attributes :: "Attributes option"

record Status =
  code :: int
  message :: string

record SpanContext =
  ctx_traceId :: string
  ctx_spanId :: string
  ctx_options :: "int option"

text \<open>
  \<open>SpanOptions\<close>: the argument of the \<open>RootSpan\<close> constructor. A field that the caller left
  out (\<open>undefined\<close>) is \<open>None\<close>.
\<close>

record SpanOptions =
  opt_name :: "string option"
  opt_spanContext :: "SpanContext option"
  opt_kind :: "SpanKind option"

text \<open>
  \<open>SpanData\<close>. The field \<open>kind\<close> is declared \<open>SpanKind\<close>, but the \<open>RootSpan\<close> constructor
  stores \<open>null\<close> in it, so the model makes it an option (\<open>None\<close> is \<open>null\<close>). A time is the
  number of milliseconds \<open>new Date().getTime()\<close> returns. The optional fields \<open>status\<close> and
  \<open>sameProcessAsParentSpan\<close> are \<open>None\<close> while unset. The field \<open>stackTrace\<close> is always the
  empty object.
\<close>

record SpanData =
  traceId :: string
  spanId :: string
  parentSpanId :: string
  name :: string
  kind :: "SpanKind option"
  startTime :: int
  endTime :: int
  attributes :: Attributes
  stackTrace :: unit
  timeEvents :: "TimeEvent list"
  links :: "Link list"
  status :: "Status option"
  sameProcessAsParentSpan :: "bool option"

text \<open>\<open>Partial<SpanData>\<close>: every field may be absent.\<close>

record PartialSpanData =
  base_traceId :: "string option"
  base_spanId :: "string option"
  base_parentSpanId :: "string option"
  base_name :: "string option"
  base_kind :: "SpanKind option option"
  base_startTime :: "int option"
  base_endTime :: "int option"
  base_attributes :: "Attributes option"
  base_stackTrace :: "unit option"
  base_timeEvents :: "TimeEvent list option"
  base_links :: "Link list option"
  base_status :: "Status option"
  base_sameProcessAsParentSpan :: "bool option"

definition no_fields :: PartialSpanData where
  "no_fields = \<lparr>base_traceId = None, base_spanId = None, base_parentSpanId = None,
     base_name = None, base_kind = None, base_startTime = None, base_endTime = None,
     base_attributes = None, base_stackTrace = None, base_timeEvents = None,
     base_links = None, base_status = None, base_sameProcessAsParentSpan = None\<rparr>"

section \<open>BaseSpan (trace/model/base-span.ts)\<close>

definition UNINITIALIZED_DATE :: int where
  "UNINITIALIZED_DATE = 0"

definition or_default :: "'a \<Rightarrow> 'a option \<Rightarrow> 'a" where
  "or_default d v = (case v of None \<Rightarrow> d | Some x \<Rightarrow> x)"

text \<open>\<open>createSpanData\<close>: \<open>Object.assign\<close> of the given fields over the defaults.\<close>

definition createSpanData :: "PartialSpanData \<Rightarrow> SpanData" where
  "createSpanData base =
     \<lparr>traceId = or_default [] (base_traceId base),
      spanId = or_default [] (base_spanId base),
      parentSpanId = or_default [] (base_parentSpanId base),
      name = or_default [] (base_name base),
      kind = or_default (Some SPAN_KIND_UNSPECIFIED) (base_kind base),
      startTime = or_default UNINITIALIZED_DATE (base_startTime base),
      endTime = or_default UNINITIALIZED_DATE (base_endTime base),
      attributes = or_default Map.empty (base_attributes base),
      stackTrace = or_default () (base_stackTrace base),
      timeEvents = or_default [] (base_timeEvents base),
      links = or_default [] (base_links base),
      status = base_status base,
      sameProcessAsParentSpan = base_sameProcessAsParentSpan base\<rparr>"

text \<open>
  A listener is an object with the hooks \<open>onStartSpan\<close> and \<open>onEndSpan\<close>; the spans compare
  listeners by reference (\<open>===\<close>). The model follows one trace: \<open>ThisRootSpan\<close> is the
  reference to the root span of that trace (what \<open>startChildSpan\<close> registers on a child as
  \<open>this\<close>), \<open>Listener n\<close> is the reference to any other listener object (a tracer, an
  exporter, a test's listener). Two references are identical iff they are equal here.
\<close>

datatype SpanEventListener = ThisRootSpan | Listener nat

datatype Hook = OnStartSpan | OnEndSpan

text \<open>
  What a method does to the objects around the span, in the order it does it: a call of a
  listener's hook with the span's data as it is at the call, or a line handed to the logger.
  The logger's lines are told apart by the statement that writes them; their text (a
  rendering of the span) is left out.
\<close>

datatype LogLine =
    StartOnStarted
  | EndOnEnded
  | EndOnUnstarted
  | Truncating
  | ChildOnEndedRoot
  | ChildOnUnstartedRoot

datatype Effect =
    Call SpanEventListener Hook SpanData
  | Warn LogLine
  | Debug LogLine

fun is_Call :: "Effect \<Rightarrow> bool" where
  "is_Call (Call l h d) = True"
| "is_Call (Warn w) = False"
| "is_Call (Debug w) = False"

text \<open>The object state of a \<open>BaseSpan\<close>; the logger is an outside object and not part of it.\<close>

record BaseSpan =
  data :: SpanData
  truncated :: bool
  listeners :: "SpanEventListener list"

text \<open>
  The constructor: \<open>sid\<close> is the value \<open>randomSpanId()\<close> returns; a \<open>spanId\<close> among the given
  fields replaces it.
\<close>

definition BaseSpan_new :: "string \<Rightarrow> PartialSpanData \<Rightarrow> BaseSpan" where
  "BaseSpan_new sid spanData =
     \<lparr>data = createSpanData
        (spanData\<lparr>base_spanId := Some (or_default sid (base_spanId spanData))\<rparr>),
      truncated = False,
      listeners = []\<rparr>"

definition registerSpanEventListener ::
  "SpanEventListener \<Rightarrow> 'a BaseSpan_scheme \<Rightarrow> 'a BaseSpan_scheme" where
  "registerSpanEventListener listener s = s\<lparr>listeners := listeners s @ [listener]\<rparr>"

definition unregisterSpanEventListener ::
  "SpanEventListener \<Rightarrow> 'a BaseSpan_scheme \<Rightarrow> 'a BaseSpan_scheme" where
  "unregisterSpanEventListener listener s =
     s\<lparr>listeners := filter (\<lambda>l. l = listener) (listeners s)\<rparr>"

definition started :: "'a BaseSpan_scheme \<Rightarrow> bool" where
  "started s = (startTime (data s) \<noteq> UNINITIALIZED_DATE)"

definition ended :: "'a BaseSpan_scheme \<Rightarrow> bool" where
  "ended s = (endTime (data s) \<noteq> UNINITIALIZED_DATE)"

definition getSpanContext :: "'a BaseSpan_scheme \<Rightarrow> SpanContext" where
  "getSpanContext s =
     \<lparr>ctx_traceId = traceId (data s), ctx_spanId = spanId (data s), ctx_options = Some 1\<rparr>"

definition addAttribute ::
  "string \<Rightarrow> AttributeValue \<Rightarrow> 'a BaseSpan_scheme \<Rightarrow> 'a BaseSpan_scheme" where
  "addAttribute key val s =
     s\<lparr>data := (data s)\<lparr>attributes := (attributes (data s))(key \<mapsto> val)\<rparr>\<rparr>"

definition addAnnotation ::
  "string \<Rightarrow> int \<Rightarrow> Attributes option \<Rightarrow> 'a BaseSpan_scheme \<Rightarrow> 'a BaseSpan_scheme" where
  "addAnnotation description timestamp attrs s =
     s\<lparr>data := (data s)\<lparr>timeEvents :=
        timeEvents (data s) @ [Annotation description timestamp attrs]\<rparr>\<rparr>"

definition addLink ::
  "string \<Rightarrow> string \<Rightarrow> string \<Rightarrow> Attributes option \<Rightarrow>
   'a BaseSpan_scheme \<Rightarrow> 'a BaseSpan_scheme" where
  "addLink tid sid ty attrs s =
     s\<lparr>data := (data s)\<lparr>links := links (data s) @
        [\<lparr>link_traceId = tid, link_spanId = sid, link_type = ty,
          link_attributes = attrs\<rparr>]\<rparr>\<rparr>"

definition addMessageEvent ::
  "string \<Rightarrow> string \<Rightarrow> 'a BaseSpan_scheme \<Rightarrow> 'a BaseSpan_scheme" where
  "addMessageEvent ty ident s =
     s\<lparr>data := (data s)\<lparr>timeEvents := timeEvents (data s) @ [MessageEvent ty ident]\<rparr>\<rparr>"

text \<open>\<open>setStatus(code, message = '')\<close>: an absent message is the empty string.\<close>

definition setStatus ::
  "int \<Rightarrow> string option \<Rightarrow> 'a BaseSpan_scheme \<Rightarrow> 'a BaseSpan_scheme" where
  "setStatus c msg s =
     s\<lparr>data := (data s)\<lparr>status := Some \<lparr>code = c, message = or_default [] msg\<rparr>\<rparr>\<rparr>"

text \<open>\<open>this.listeners.forEach(l => l.onStartSpan(this.data))\<close>, and the same for the end.\<close>

definition notify :: "Hook \<Rightarrow> 'a BaseSpan_scheme \<Rightarrow> Effect list" where
  "notify h s = map (\<lambda>l. Call l h (data s)) (listeners s)"

text \<open>
  \<open>start()\<close> and \<open>end()\<close>. The argument \<open>now\<close> is what \<open>new Date().getTime()\<close> returns when
  the method reads the clock, which it does only after its guards.
\<close>

definition BaseSpan_start ::
  "int \<Rightarrow> 'a BaseSpan_scheme \<Rightarrow> 'a BaseSpan_scheme \<times> Effect list" where
  "BaseSpan_start now s =
     (if started s then (s, [Warn StartOnStarted])
      else let s' = s\<lparr>data := (data s)\<lparr>startTime := now\<rparr>\<rparr>
           in (s', notify OnStartSpan s'))"

definition BaseSpan_end ::
  "int \<Rightarrow> 'a BaseSpan_scheme \<Rightarrow> 'a BaseSpan_scheme \<times> Effect list" where
  "BaseSpan_end now s =
     (if ended s then (s, [Warn EndOnEnded])
      else if \<not> started s then (s, [Warn EndOnUnstarted])
      else let s' = s\<lparr>data := (data s)\<lparr>endTime := now\<rparr>\<rparr>
           in (s'\<lparr>listeners := []\<rparr>, notify OnEndSpan s'))"

definition BaseSpan_truncate ::
  "int \<Rightarrow> 'a BaseSpan_scheme \<Rightarrow> 'a BaseSpan_scheme \<times> Effect list" where
  "BaseSpan_truncate now s =
     (let (s', es) = BaseSpan_end now (s\<lparr>truncated := True\<rparr>)
      in (s', es @ [Debug Truncating]))"

text \<open>\<open>ChildSpan\<close>: the base constructor, then the flag.\<close>

definition ChildSpan_new :: "string \<Rightarrow> PartialSpanData \<Rightarrow> BaseSpan" where
  "ChildSpan_new sid spanData =
     (let s = BaseSpan_new sid spanData
      in s\<lparr>data := (data s)\<lparr>sameProcessAsParentSpan := Some True\<rparr>\<rparr>)"

section \<open>RootSpan (trace/model/root-span.ts)\<close>

record RootSpan = BaseSpan +
  spans :: "BaseSpan list"

text \<open>
  The constructor. \<open>sid\<close> is the value of \<open>randomSpanId()\<close> and \<open>uuid\<close> the value of
  \<open>uuid.v4()\<close>, from which the dashes are removed. A string is falsy iff it is empty.
\<close>

definition RootSpan_new :: "string \<Rightarrow> string \<Rightarrow> SpanOptions option \<Rightarrow> RootSpan" where
  "RootSpan_new sid uuid options =
     (let b = BaseSpan_new sid no_fields;
          d0 = data b;
          ctx = (case options of None \<Rightarrow> None | Some opts \<Rightarrow> opt_spanContext opts);
          d1 = d0\<lparr>traceId :=
                 (case ctx of
                    Some c \<Rightarrow> if ctx_traceId c \<noteq> [] then ctx_traceId c
                              else filter (\<lambda>ch. ch \<noteq> CHR ''-'') uuid
                  | None \<Rightarrow> filter (\<lambda>ch. ch \<noteq> CHR ''-'') uuid)\<rparr>;
          d2 = d1\<lparr>name :=
                 (case options of
                    Some opts \<Rightarrow>
                      (case opt_name opts of
                         Some n \<Rightarrow> if n \<noteq> [] then n else ''undefined''
                       | None \<Rightarrow> ''undefined'')
                  | None \<Rightarrow> ''undefined'')\<rparr>;
          d3 = (case ctx of
                  Some c \<Rightarrow> d2\<lparr>parentSpanId := (if ctx_spanId c \<noteq> [] then ctx_spanId c else [])\<rparr>
                | None \<Rightarrow> d2);
          d4 = d3\<lparr>kind :=
                 (case options of
                    Some opts \<Rightarrow>
                      (case opt_kind opts of
                         Some k \<Rightarrow> if truthy_kind k then Some k else None
                       | None \<Rightarrow> None)
                  | None \<Rightarrow> None)\<rparr>;
          d5 = d4\<lparr>sameProcessAsParentSpan := Some False\<rparr>
      in \<lparr>data = d5, truncated = truncated b, listeners = listeners b, spans = []\<rparr>)"

text \<open>
  The clock: \<open>clock n\<close> is the value of the \<open>n\<close>-th evaluation of \<open>new Date().getTime()\<close>.
  Every method below takes the number of evaluations so far and returns the new number.
\<close>

type_synonym Clock = "nat \<Rightarrow> int"

text \<open>
  The hooks of the root span forward an event to the root's own listeners:
  \<open>this.listeners.forEach(l => l.onStartSpan(data))\<close>. \<open>deliver k rl es\<close> carries out the
  calls among the effects \<open>es\<close> in their order, where \<open>rl\<close> is the listener list of the root: a
  call of \<open>ThisRootSpan\<close> runs the root's hook, every other effect reaches an object outside
  the trace and is recorded as it is. The hook of an outside listener is taken to return
  without calling back into the spans. A root that is among its own listeners calls its hook
  from inside that hook without end; \<open>k\<close> is the number of nested calls of the root's hooks
  the call stack has room for, and the result is \<open>None\<close> when that is not enough.
\<close>

fun deliver :: "nat \<Rightarrow> SpanEventListener list \<Rightarrow> Effect list \<Rightarrow> Effect list option" where
  "deliver k rl [] = Some []"
| "deliver 0 rl (Call ThisRootSpan h d # es) = None"
| "deliver (Suc k) rl (Call ThisRootSpan h d # es) =
     (case deliver k rl (map (\<lambda>l. Call l h d) rl) of
        None \<Rightarrow> None
      | Some xs \<Rightarrow>
          (case deliver (Suc k) rl es of None \<Rightarrow> None | Some ys \<Rightarrow> Some (xs @ ys)))"
| "deliver k rl (e # es) =
     (case deliver k rl es of None \<Rightarrow> None | Some ys \<Rightarrow> Some (e # ys))"

definition RootSpan_onStartSpan :: "nat \<Rightarrow> SpanData \<Rightarrow> RootSpan \<Rightarrow> Effect list option" where
  "RootSpan_onStartSpan k d r =
     deliver k (listeners r) (map (\<lambda>l. Call l OnStartSpan d) (listeners r))"

definition RootSpan_onEndSpan :: "nat \<Rightarrow> SpanData \<Rightarrow> RootSpan \<Rightarrow> Effect list option" where
  "RootSpan_onEndSpan k d r =
     deliver k (listeners r) (map (\<lambda>l. Call l OnEndSpan d) (listeners r))"

text \<open>
  The loop of \<open>RootSpan.end\<close> over the child list. A child that passes the loop's guard passes
  the guards of its own \<open>end()\<close>, so its \<open>truncate()\<close> reads the clock once.
\<close>

fun truncate_open :: "Clock \<Rightarrow> nat \<Rightarrow> BaseSpan list \<Rightarrow> BaseSpan list \<times> nat \<times> Effect list" where
  "truncate_open clock t [] = ([], t, [])"
| "truncate_open clock t (span # rest) =
     (if \<not> ended span \<and> started span
      then (let (span', es) = BaseSpan_truncate (clock t) span;
                (rest', t', es') = truncate_open clock (Suc t) rest
            in (span' # rest', t', es @ es'))
      else (let (rest', t', es') = truncate_open clock t rest
            in (span # rest', t', es')))"

text \<open>
  \<open>RootSpan.end\<close>: the loop, then \<open>super.end()\<close>, which reads the clock only after its two
  guards. The first function gives the calls as the spans make them; the second one carries
  them out. The root's hooks only read its listener list, which nothing changes before the
  last statement of \<open>super.end()\<close>, so the calls are carried out with the list as it is at
  the start.
\<close>

definition RootSpan_end_calls :: "Clock \<Rightarrow> nat \<Rightarrow> RootSpan \<Rightarrow> RootSpan \<times> nat \<times> Effect list" where
  "RootSpan_end_calls clock t r =
     (let (cs, t1, es1) = truncate_open clock t (spans r);
          r1 = r\<lparr>spans := cs\<rparr>;
          (r2, es2) = BaseSpan_end (clock t1) r1
      in (r2, (if ended r1 \<or> \<not> started r1 then t1 else Suc t1), es1 @ es2))"

definition RootSpan_end ::
  "nat \<Rightarrow> Clock \<Rightarrow> nat \<Rightarrow> RootSpan \<Rightarrow> (RootSpan \<times> nat \<times> Effect list) option" where
  "RootSpan_end k clock t r =
     (let (r', t', es) = RootSpan_end_calls clock t r
      in map_option (\<lambda>out. (r', t', out)) (deliver k (listeners r) es))"

text \<open>
  \<open>truncate()\<close> is inherited, and the \<open>this.end()\<close> in it is the overriding \<open>RootSpan.end\<close>
  when the span is a root span.
\<close>

definition RootSpan_truncate_calls ::
  "Clock \<Rightarrow> nat \<Rightarrow> RootSpan \<Rightarrow> RootSpan \<times> nat \<times> Effect list" where
  "RootSpan_truncate_calls clock t r =
     (let (r', t', es) = RootSpan_end_calls clock t (r\<lparr>truncated := True\<rparr>)
      in (r', t', es @ [Debug Truncating]))"

text \<open>
  \<open>startChildSpan(name, kind = SpanKind.CLIENT)\<close>. An omitted \<open>kind\<close> is \<open>None\<close>; \<open>sid\<close> is the
  value \<open>randomSpanId()\<close> returns for the child. The result is \<open>null\<close> (\<open>None\<close>) or the new
  child, which the model names by its position in the child list.
\<close>

definition RootSpan_startChildSpan_calls ::
  "Clock \<Rightarrow> nat \<Rightarrow> string \<Rightarrow> SpanKind option \<Rightarrow> string \<Rightarrow> RootSpan \<Rightarrow>
   (RootSpan \<times> nat \<times> Effect list) \<times> nat option" where
  "RootSpan_startChildSpan_calls clock t nm knd sid r =
     (if ended r then ((r, t, [Warn ChildOnEndedRoot]), None)
      else if \<not> started r then ((r, t, [Warn ChildOnUnstartedRoot]), None)
      else let childSpan = ChildSpan_new sid
                 (no_fields\<lparr>base_traceId := Some (traceId (data r)),
                    base_parentSpanId := Some (spanId (data r)),
                    base_name := Some nm,
                    base_kind := Some (Some (or_default CLIENT knd))\<rparr>);
               listening = registerSpanEventListener ThisRootSpan childSpan;
               (running, es) = BaseSpan_start (clock t) listening
           in ((r\<lparr>spans := spans r @ [running]\<rparr>,
                (if started listening then t else Suc t), es),
               Some (length (spans r))))"

definition RootSpan_startChildSpan ::
  "nat \<Rightarrow> Clock \<Rightarrow> nat \<Rightarrow> string \<Rightarrow> SpanKind option \<Rightarrow> string \<Rightarrow> RootSpan \<Rightarrow>
   ((RootSpan \<times> nat \<times> Effect list) \<times> nat option) option" where
  "RootSpan_startChildSpan k clock t nm knd sid r =
     (let ((r', t', es), res) = RootSpan_startChildSpan_calls clock t nm knd sid r
      in map_option (\<lambda>out. ((r', t', out), res)) (deliver k (listeners r) es))"

section \<open>Sequences of method calls\<close>

text \<open>The methods of the interface \<open>Span\<close> that change a span or call out of it.\<close>

datatype Method =
    DoStart
  | DoEnd
  | DoTruncate
  | DoRegister SpanEventListener
  | DoUnregister SpanEventListener
  | DoAddAttribute string AttributeValue
  | DoAddAnnotation string int "Attributes option"
  | DoAddLink string string string "Attributes option"
  | DoAddMessageEvent string string
  | DoSetStatus int "string option"

text \<open>One call on a span whose class does not override anything (a child span).\<close>

fun BaseSpan_call ::
  "Clock \<Rightarrow> nat \<Rightarrow> Method \<Rightarrow> 'a BaseSpan_scheme \<Rightarrow> 'a BaseSpan_scheme \<times> nat \<times> Effect list" where
  "BaseSpan_call clock t DoStart s =
     (let (s', es) = BaseSpan_start (clock t) s
      in (s', (if started s then t else Suc t), es))"
| "BaseSpan_call clock t DoEnd s =
     (let (s', es) = BaseSpan_end (clock t) s
      in (s', (if ended s \<or> \<not> started s then t else Suc t), es))"
| "BaseSpan_call clock t DoTruncate s =
     (let (s', es) = BaseSpan_truncate (clock t) s
      in (s', (if ended s \<or> \<not> started s then t else Suc t), es))"
| "BaseSpan_call clock t (DoRegister l) s = (registerSpanEventListener l s, t, [])"
| "BaseSpan_call clock t (DoUnregister l) s = (unregisterSpanEventListener l s, t, [])"
| "BaseSpan_call clock t (DoAddAttribute k v) s = (addAttribute k v s, t, [])"
| "BaseSpan_call clock t (DoAddAnnotation d ts a) s = (addAnnotation d ts a s, t, [])"
| "BaseSpan_call clock t (DoAddLink ti si ty a) s = (addLink ti si ty a s, t, [])"
| "BaseSpan_call clock t (DoAddMessageEvent ty i) s = (addMessageEvent ty i s, t, [])"
| "BaseSpan_call clock t (DoSetStatus c m) s = (setStatus c m s, t, [])"

fun BaseSpan_calls ::
  "Clock \<Rightarrow> nat \<Rightarrow> Method list \<Rightarrow> 'a BaseSpan_scheme \<Rightarrow> 'a BaseSpan_scheme \<times> nat \<times> Effect list" where
  "BaseSpan_calls clock t [] s = (s, t, [])"
| "BaseSpan_calls clock t (m # ms) s =
     (let (s1, t1, es1) = BaseSpan_call clock t m s;
          (s2, t2, es2) = BaseSpan_calls clock t1 ms s1
      in (s2, t2, es1 @ es2))"

text \<open>
  One call into a trace: a method of the root span, a method of its \<open>i\<close>-th child,
  \<open>startChildSpan\<close>, or one of the root's two hooks called by a span the root listens on.
  A caller holds a child only as the result of \<open>startChildSpan\<close>, so a position beyond the
  child list names no object; such a call leaves the trace as it is.
\<close>

datatype Invocation =
    OnRoot Method
  | OnChild nat Method
  | StartChildSpan string "SpanKind option" string
  | RootHook Hook SpanData

fun invoke_calls :: "Clock \<Rightarrow> Invocation \<Rightarrow> nat \<Rightarrow> RootSpan \<Rightarrow> RootSpan \<times> nat \<times> Effect list" where
  "invoke_calls clock (OnRoot DoEnd) t r = RootSpan_end_calls clock t r"
| "invoke_calls clock (OnRoot DoTruncate) t r = RootSpan_truncate_calls clock t r"
| "invoke_calls clock (OnRoot m) t r = BaseSpan_call clock t m r"
| "invoke_calls clock (OnChild i m) t r =
     (if i < length (spans r)
      then (let (c, t', es) = BaseSpan_call clock t m (spans r ! i)
            in (r\<lparr>spans := (spans r)[i := c]\<rparr>, t', es))
      else (r, t, []))"
| "invoke_calls clock (StartChildSpan nm knd sid) t r =
     fst (RootSpan_startChildSpan_calls clock t nm knd sid r)"
| "invoke_calls clock (RootHook h d) t r = (r, t, [Call ThisRootSpan h d])"

text \<open>
  A trace as it is between two calls: the root span with its children, the number of clock
  readings so far, and everything that has reached the outside listeners and the logger.
\<close>

record Trace =
  root :: RootSpan
  ticks :: nat
  observed :: "Effect list"

definition invoke :: "nat \<Rightarrow> Clock \<Rightarrow> Invocation \<Rightarrow> Trace \<Rightarrow> Trace option" where
  "invoke k clock i w =
     (let (r', t', es) = invoke_calls clock i (ticks w) (root w)
      in map_option (\<lambda>out. \<lparr>root = r', ticks = t', observed = observed w @ out\<rparr>)
           (deliver k (listeners (root w)) es))"

fun invoke_all :: "nat \<Rightarrow> Clock \<Rightarrow> Invocation list \<Rightarrow> Trace \<Rightarrow> Trace option" where
  "invoke_all k clock [] w = Some w"
| "invoke_all k clock (i # is) w =
     (case invoke k clock i w of None \<Rightarrow> None | Some w' \<Rightarrow> invoke_all k clock is w')"

section \<open>ExporterBuffer\<close>

text \<open>
  Modelled from the spec: the class \<open>ExporterBuffer\<close> (exporters/exporter-buffer.ts) is not
  among the sources; only its test (test/test-exporter-buffer.ts) and its callers are. The
  state and the operations follow section 4.5 of the specification: a queue of records, the
  configured \<open>bufferSize\<close> and \<open>bufferTimeout\<close>, and whether a flush timer is pending.
  \<open>published\<close> is the list of the batches handed to the exporter's \<open>publish\<close>, in the order
  of the calls.
\<close>

record ExporterBuffer =
  bufferSize :: nat
  bufferTimeout :: nat
  queue :: "SpanData list"
  timerPending :: bool
  published :: "SpanData list list"

definition ExporterBuffer_new :: "nat \<Rightarrow> nat \<Rightarrow> ExporterBuffer" where
  "ExporterBuffer_new n ms =
     \<lparr>bufferSize = n, bufferTimeout = ms, queue = [], timerPending = False,
      published = []\<rparr>"

definition setBufferSize :: "nat \<Rightarrow> ExporterBuffer \<Rightarrow> ExporterBuffer" where
  "setBufferSize n b = b\<lparr>bufferSize := n\<rparr>"

definition getBufferSize :: "ExporterBuffer \<Rightarrow> nat" where
  "getBufferSize b = bufferSize b"

definition getQueue :: "ExporterBuffer \<Rightarrow> SpanData list" where
  "getQueue b = queue b"

text \<open>Publish the full queue, then clear it and cancel any pending timer.\<close>

definition flush :: "ExporterBuffer \<Rightarrow> ExporterBuffer" where
  "flush b = b\<lparr>published := published b @ [queue b], queue := [], timerPending := False\<rparr>"

text \<open>
  Modelled from the spec: \<open>addToBuffer\<close> appends the record to the queue. If the queue length
  reaches \<open>bufferSize\<close>, it flushes at once. Else, if no flush timer is pending, it starts
  one; a timer that is pending is not reset.
\<close>

definition addToBuffer :: "SpanData \<Rightarrow> ExporterBuffer \<Rightarrow> ExporterBuffer" where
  "addToBuffer record b =
     (let b' = b\<lparr>queue := queue b @ [record]\<rparr>
      in if length (queue b') \<ge> bufferSize b' then flush b'
         else if timerPending b' then b'
         else b'\<lparr>timerPending := True\<rparr>)"

text \<open>The pending timer fires: flush whatever is queued.\<close>

definition onBufferTimeout :: "ExporterBuffer \<Rightarrow> ExporterBuffer" where
  "onBufferTimeout b = (if timerPending b then flush b else b)"

text \<open>
  The test \<open>should force flush\<close> of test/test-exporter-buffer.ts, for an implementation \<open>add\<close>
  of \<open>addToBuffer\<close>: a buffer of size \<open>DEFAULT_BUFFER_SIZE = 3\<close> and timeout
  \<open>DEFAULT_BUFFER_TIMEOUT = 2000\<close>, the data of three root spans added in a loop, the first
  assertion, one more record, the second assertion.
\<close>

definition should_force_flush ::
  "(SpanData \<Rightarrow> ExporterBuffer \<Rightarrow> ExporterBuffer) \<Rightarrow> SpanData list \<Rightarrow> SpanData \<Rightarrow> bool" where
  "should_force_flush add rootSpans extra =
     (let buffer = ExporterBuffer_new 3 2000;
          buffer1 = fold add rootSpans buffer;
          first_assertion = (length (getQueue buffer1) = getBufferSize buffer1);
          buffer2 = add extra buffer1;
          second_assertion = (length (getQueue buffer2) = 0)
      in first_assertion \<and> second_assertion)"

section \<open>Auxiliary notions for the statements\<close>

text \<open>
  The fields that tie a span to its trace and to its parent: \<open>same_identity s s'\<close> says that
  \<open>s'\<close> has the trace id, span id, parent span id and same-process flag of \<open>s\<close>.
\<close>

definition same_identity :: "'a BaseSpan_scheme \<Rightarrow> 'b BaseSpan_scheme \<Rightarrow> bool" where
  "same_identity s s' =
     (traceId (data s') = traceId (data s) \<and> spanId (data s') = spanId (data s) \<and>
      parentSpanId (data s') = parentSpanId (data s) \<and>
      sameProcessAsParentSpan (data s') = sameProcessAsParentSpan (data s))"

text \<open>A span that \<open>RootSpan.end\<close> truncates: started and not ended.\<close>

definition still_open :: "'a BaseSpan_scheme \<Rightarrow> bool" where
  "still_open s = (\<not> ended s \<and> started s)"

text \<open>
  What one effect of a span amounts to outside the trace when the root's listener list is
  \<open>rl\<close>: the root's hook forwards a call to each of the root's listeners, in their order.
\<close>

fun forwarded :: "SpanEventListener list \<Rightarrow> Effect \<Rightarrow> Effect list" where
  "forwarded rl (Call ThisRootSpan h d) = map (\<lambda>l. Call l h d) rl"
| "forwarded rl e = [e]"

fun calls_root :: "Effect \<Rightarrow> bool" where
  "calls_root (Call ThisRootSpan h d) = True"
| "calls_root e = False"

text \<open>
  The calls a child makes when the root truncates it: \<open>fst p\<close> is the child before and
  \<open>snd p\<close> the child after \<open>RootSpan.end\<close>.
\<close>

definition truncation_calls :: "BaseSpan \<times> BaseSpan \<Rightarrow> Effect list" where
  "truncation_calls p =
     (if still_open (fst p)
      then map (\<lambda>l. Call l OnEndSpan (data (snd p))) (listeners (fst p)) @ [Debug Truncating]
      else [])"

text \<open>
  \<open>evolves s s'\<close>: \<open>s'\<close> has the identity of \<open>s\<close>, its start time if \<open>s\<close> is started and its
  end time if \<open>s\<close> is ended. \<open>grows r r'\<close>: the root and each child of \<open>r\<close> evolve into the
  root and the child at the same position of \<open>r'\<close>.
\<close>

definition evolves :: "'a BaseSpan_scheme \<Rightarrow> 'b BaseSpan_scheme \<Rightarrow> bool" where
  "evolves s s' =
     (same_identity s s' \<and>
      (started s \<longrightarrow> startTime (data s') = startTime (data s)) \<and>
      (ended s \<longrightarrow> endTime (data s') = endTime (data s)))"

definition grows :: "RootSpan \<Rightarrow> RootSpan \<Rightarrow> bool" where
  "grows r r' =
     (evolves r r' \<and> length (spans r) \<le> length (spans r') \<and>
      (\<forall>j < length (spans r). evolves (spans r ! j) (spans r' ! j)))"

text \<open>
  What holds of every root span that the methods have built: its children are started, they
  are ended once the root is ended, and a root that is not started has no child.
\<close>

definition children_follow_root :: "RootSpan \<Rightarrow> bool" where
  "children_follow_root r =
     ((\<forall>c \<in> set (spans r). started c \<and> (ended r \<longrightarrow> ended c)) \<and>
      (\<not> started r \<longrightarrow> spans r = []))"

text \<open>A trace that holds nothing but a root span fresh from its constructor.\<close>

definition new_trace :: "string \<Rightarrow> string \<Rightarrow> SpanOptions option \<Rightarrow> Trace" where
  "new_trace sid uuid options =
     \<lparr>root = RootSpan_new sid uuid options, ticks = 0, observed = []\<rparr>"

text \<open>The calls that are operations of a span, as opposed to the root's listener hooks.\<close>

fun span_operation :: "Invocation \<Rightarrow> bool" where
  "span_operation (RootHook h d) = False"
| "span_operation i = True"

text \<open>
  The child that \<open>startChildSpan(nm, knd)\<close> builds on the root \<open>r\<close> when the child's id is
  \<open>sid\<close> and the clock reads \<open>now\<close>, written out field by field.
\<close>

definition new_child :: "RootSpan \<Rightarrow> string \<Rightarrow> SpanKind option \<Rightarrow> string \<Rightarrow> int \<Rightarrow> BaseSpan" where
  "new_child r nm knd sid now =
     \<lparr>data = \<lparr>traceId = traceId (data r), spanId = sid, parentSpanId = spanId (data r),
              name = nm, kind = Some (or_default CLIENT knd), startTime = now,
              endTime = UNINITIALIZED_DATE, attributes = Map.empty, stackTrace = (),
              timeEvents = [], links = [], status = None,
              sameProcessAsParentSpan = Some True\<rparr>,
      truncated = False, listeners = [ThisRootSpan]\<rparr>"

subsection \<open>A concrete trace\<close>

text \<open>
  The inputs of the witnesses: a clock that starts at 1000 and advances by one at each
  reading, a span with one listener, and a trace in which a listener is registered on the
  root, the root is started, two children are started and the first child is ended
  (\<open>example_trace\<close>); then the root is ended (\<open>example_ended\<close>) and further calls are made
  (\<open>example_final\<close>).
\<close>

definition example_clock :: Clock where
  "example_clock n = 1000 + int n"

definition example_span :: BaseSpan where
  "example_span = registerSpanEventListener (Listener 7) (BaseSpan_new ''s1'' no_fields)"

definition example_calls :: "Invocation list" where
  "example_calls = [OnRoot (DoRegister (Listener 7)), OnRoot DoStart,
     StartChildSpan ''a'' None ''c1'', StartChildSpan ''b'' (Some SERVER) ''c2'',
     OnChild 0 DoEnd]"

definition example_trace :: Trace where
  "example_trace =
     the (invoke_all 1 example_clock example_calls (new_trace ''r1'' ''u-1'' None))"

definition example_ended :: Trace where
  "example_ended = the (invoke 1 example_clock (OnRoot DoEnd) example_trace)"

definition example_later :: "Invocation list" where
  "example_later = [OnRoot DoStart, OnChild 1 DoEnd, OnRoot (DoRegister (Listener 7)),
     OnRoot DoEnd, OnRoot DoTruncate, StartChildSpan ''c'' None ''c3'', OnChild 0 DoStart]"

definition example_final :: Trace where
  "example_final = the (invoke_all 1 example_clock example_later example_ended)"

definition example_record :: "string \<Rightarrow> SpanData" where
  "example_record sid = data (RootSpan_new sid ''u-2'' None)"

section \<open>Lemmas\<close>

lemmas span_defs = started_def ended_def notify_def BaseSpan_start_def BaseSpan_end_def
  BaseSpan_truncate_def registerSpanEventListener_def unregisterSpanEventListener_def
  addAttribute_def addAnnotation_def addLink_def addMessageEvent_def setStatus_def



subsection \<open>One span\<close>

lemma start_unstarted:
  "\<not> started s \<Longrightarrow> BaseSpan_start now s =
     (s\<lparr>data := (data s)\<lparr>startTime := now\<rparr>\<rparr>,
      map (\<lambda>l. Call l OnStartSpan ((data s)\<lparr>startTime := now\<rparr>)) (listeners s))"
  by (simp add: BaseSpan_start_def notify_def Let_def)

lemma start_started: "started s \<Longrightarrow> BaseSpan_start now s = (s, [Warn StartOnStarted])"
  by (simp add: BaseSpan_start_def)

lemma end_still_open:
  "still_open s \<Longrightarrow> BaseSpan_end now s =
     (s\<lparr>data := (data s)\<lparr>endTime := now\<rparr>, listeners := []\<rparr>,
      map (\<lambda>l. Call l OnEndSpan ((data s)\<lparr>endTime := now\<rparr>)) (listeners s))"
  by (simp add: still_open_def BaseSpan_end_def notify_def Let_def)

lemma end_not_open:
  "\<not> still_open s \<Longrightarrow>
   BaseSpan_end now s = (s, [Warn (if ended s then EndOnEnded else EndOnUnstarted)])"
  by (auto simp: still_open_def BaseSpan_end_def)

lemma truncate_still_open:
  "still_open s \<Longrightarrow> BaseSpan_truncate now s =
     (s\<lparr>data := (data s)\<lparr>endTime := now\<rparr>, truncated := True, listeners := []\<rparr>,
      map (\<lambda>l. Call l OnEndSpan ((data s)\<lparr>endTime := now\<rparr>)) (listeners s) @ [Debug Truncating])"
  by (simp add: still_open_def span_defs Let_def)

lemma truncate_not_open:
  "\<not> still_open s \<Longrightarrow> BaseSpan_truncate now s =
     (s\<lparr>truncated := True\<rparr>,
      [Warn (if ended s then EndOnEnded else EndOnUnstarted), Debug Truncating])"
  by (auto simp: still_open_def span_defs Let_def)

lemma evolves_refl: "evolves s s"
  by (simp add: evolves_def same_identity_def)

lemma evolves_trans:
  "evolves s s' \<Longrightarrow> started s \<longrightarrow> started s' \<Longrightarrow> ended s \<longrightarrow> ended s' \<Longrightarrow>
   evolves s' s'' \<Longrightarrow> evolves s s''"
  by (auto simp: evolves_def same_identity_def)

lemma evolves_started: "evolves s s' \<Longrightarrow> started s \<Longrightarrow> started s'"
  by (simp add: evolves_def started_def)

lemma evolves_ended: "evolves s s' \<Longrightarrow> ended s \<Longrightarrow> ended s'"
  by (simp add: evolves_def ended_def)

lemma evolves_trans': "evolves s s' \<Longrightarrow> evolves s' s'' \<Longrightarrow> evolves s s''"
  using evolves_trans evolves_started evolves_ended by blast

lemma call_evolves: "evolves s (fst (BaseSpan_call clock t m s))"
  by (cases m) (simp_all add: evolves_def same_identity_def span_defs Let_def case_prod_beta)

lemma calls_evolves: "evolves s (fst (BaseSpan_calls clock t ms s))"
proof (induction ms arbitrary: s t)
  case Nil
  show ?case by (simp add: evolves_refl)
next
  case (Cons m ms)
  have "evolves s (fst (BaseSpan_call clock t m s))" by (rule call_evolves)
  moreover have "evolves (fst (BaseSpan_call clock t m s))
      (fst (BaseSpan_calls clock (fst (snd (BaseSpan_call clock t m s))) ms
         (fst (BaseSpan_call clock t m s))))"
    by (rule Cons.IH)
  ultimately show ?case
    by (simp add: case_prod_beta Let_def) (rule evolves_trans')
qed

lemma call_closed_quiet:
  "ended s \<Longrightarrow> started s \<Longrightarrow> \<not> list_ex is_Call (snd (snd (BaseSpan_call clock t m s)))"
  by (cases m) (simp_all add: span_defs Let_def case_prod_beta)

lemma calls_closed_quiet:
  "ended s \<Longrightarrow> started s \<Longrightarrow> \<not> list_ex is_Call (snd (snd (BaseSpan_calls clock t ms s)))"
proof (induction ms arbitrary: s t)
  case Nil
  show ?case by simp
next
  case (Cons m ms)
  let ?s1 = "fst (BaseSpan_call clock t m s)"
  have ev: "evolves s ?s1" by (rule call_evolves)
  have "ended ?s1" "started ?s1"
    using ev Cons.prems by (auto intro: evolves_ended evolves_started)
  then have "\<not> list_ex is_Call (snd (snd (BaseSpan_calls clock
      (fst (snd (BaseSpan_call clock t m s))) ms ?s1)))"
    by (rule Cons.IH)
  moreover have "\<not> list_ex is_Call (snd (snd (BaseSpan_call clock t m s)))"
    using Cons.prems by (rule call_closed_quiet)
  ultimately show ?case by (simp add: case_prod_beta Let_def)
qed

lemma unregister_keeps:
  "listeners (unregisterSpanEventListener l s) = replicate (count_list (listeners s) l) l"
proof -
  have "filter (\<lambda>x. x = l) xs = replicate (count_list xs l) l" for xs
    by (induction xs) auto
  then show ?thesis by (simp add: unregisterSpanEventListener_def)
qed

subsection \<open>deliver\<close>

lemma deliver_append:
  "deliver k rl (es @ es') =
     (case deliver k rl es of None \<Rightarrow> None
      | Some xs \<Rightarrow> (case deliver k rl es' of None \<Rightarrow> None | Some ys \<Rightarrow> Some (xs @ ys)))"
  by (induction k rl es rule: deliver.induct) (auto split: option.splits)

lemma deliver_outside: "\<not> list_ex calls_root es \<Longrightarrow> deliver k rl es = Some es"
  by (induction k rl es rule: deliver.induct) auto

lemma map_call_outside:
  "ThisRootSpan \<notin> set ls \<Longrightarrow> \<not> list_ex calls_root (map (\<lambda>l. Call l h d) ls)"
  by (induction ls) (auto elim: calls_root.elims)

lemma deliver_acyclic:
  "ThisRootSpan \<notin> set rl \<Longrightarrow> deliver (Suc k) rl es = Some (concat (map (forwarded rl) es))"
proof (induction es)
  case Nil
  then show ?case by simp
next
  case (Cons e es)
  show ?case
  proof (cases "calls_root e")
    case True
    then obtain h d where e: "e = Call ThisRootSpan h d"
      by (auto elim: calls_root.elims)
    have "deliver k rl (map (\<lambda>l. Call l h d) rl) = Some (map (\<lambda>l. Call l h d) rl)"
      using Cons.prems by (intro deliver_outside map_call_outside)
    then show ?thesis using Cons e by simp
  next
    case False
    then have "forwarded rl e = [e]"
      by (cases e rule: calls_root.cases) auto
    moreover have "deliver (Suc k) rl (e # es) =
        (case deliver (Suc k) rl es of None \<Rightarrow> None | Some ys \<Rightarrow> Some (e # ys))"
      using False by (cases e rule: calls_root.cases) auto
    ultimately show ?thesis using Cons by simp
  qed
qed

lemma deliver_quiet: "\<not> list_ex is_Call es \<Longrightarrow> deliver k rl es = Some es"
  by (induction k rl es rule: deliver.induct) auto

text \<open>A call of \<open>ThisRootSpan\<close> that is carried out is a run of the root's hook.\<close>

lemma deliver_runs_hook:
  "deliver (Suc k) (listeners r) [Call ThisRootSpan OnStartSpan d] = RootSpan_onStartSpan k d r"
  "deliver (Suc k) (listeners r) [Call ThisRootSpan OnEndSpan d] = RootSpan_onEndSpan k d r"
  by (simp_all add: RootSpan_onStartSpan_def RootSpan_onEndSpan_def split: option.splits)

text \<open>
  A root that is among its own listeners does not return from its hook, whatever room the
  stack has.
\<close>

lemma deliver_cyclic_calls:
  "ThisRootSpan \<in> set rl \<Longrightarrow> ThisRootSpan \<in> set ls \<Longrightarrow>
   deliver k rl (map (\<lambda>l. Call l h d) ls @ es) = None"
proof (induction k arbitrary: ls es)
  case 0
  then show ?case
  proof (induction ls)
    case Nil
    then show ?case by simp
  next
    case (Cons l ls)
    then show ?case by (cases l) (auto split: option.splits)
  qed
next
  case (Suc k)
  from Suc.prems show ?case
  proof (induction ls)
    case Nil
    then show ?case by simp
  next
    case (Cons l ls)
    show ?case
    proof (cases l)
      case ThisRootSpan
      have "deliver k rl (map (\<lambda>l. Call l h d) rl @ []) = None"
        using Suc.IH[OF Cons.prems(1) Cons.prems(1)] by blast
      then show ?thesis using ThisRootSpan by simp
    next
      case (Listener n)
      then show ?thesis using Cons by (auto split: option.splits)
    qed
  qed
qed

lemma deliver_cyclic:
  "ThisRootSpan \<in> set rl \<Longrightarrow> deliver k rl (Call ThisRootSpan h d # es) = None"
  using deliver_cyclic_calls[of rl "[ThisRootSpan]" k h d es] by simp

subsection \<open>The loop of RootSpan.end\<close>

lemma truncate_open_length: "length (fst (truncate_open clock t cs)) = length cs"
  by (induction cs arbitrary: t) (simp_all add: Let_def case_prod_beta)

lemma truncate_open_ticks:
  "fst (snd (truncate_open clock t cs)) = t + length (filter still_open cs)"
  by (induction cs arbitrary: t) (simp_all add: Let_def case_prod_beta still_open_def)

lemma truncate_open_nth:
  "i < length cs \<Longrightarrow> fst (truncate_open clock t cs) ! i =
     (if still_open (cs ! i)
      then fst (BaseSpan_truncate (clock (t + length (filter still_open (take i cs)))) (cs ! i))
      else cs ! i)"
proof (induction cs arbitrary: t i)
  case Nil
  then show ?case by simp
next
  case (Cons c cs)
  show ?case
  proof (cases i)
    case 0
    then show ?thesis by (simp add: Let_def case_prod_beta still_open_def)
  next
    case (Suc j)
    then have j: "j < length cs" using Cons.prems by simp
    show ?thesis
      using Cons.IH[OF j] Suc by (simp add: Let_def case_prod_beta still_open_def)
  qed
qed

lemma truncate_open_effects:
  "snd (snd (truncate_open clock t cs)) =
     concat (map truncation_calls (zip cs (fst (truncate_open clock t cs))))"
  by (induction cs arbitrary: t)
     (simp_all add: Let_def case_prod_beta truncation_calls_def truncate_still_open
        still_open_def[symmetric])

lemma truncate_open_none:
  "\<forall>c \<in> set cs. \<not> still_open c \<Longrightarrow> truncate_open clock t cs = (cs, t, [])"
  by (induction cs arbitrary: t) (auto simp: still_open_def Let_def)

lemma truncate_evolves: "evolves s (fst (BaseSpan_truncate now s))"
  by (simp add: evolves_def same_identity_def span_defs Let_def case_prod_beta)

lemma truncate_open_evolves:
  "i < length cs \<Longrightarrow> evolves (cs ! i) (fst (truncate_open clock t cs) ! i)"
  by (simp add: truncate_open_nth truncate_evolves evolves_refl)

lemma truncate_open_closes:
  assumes "\<forall>n. clock n \<noteq> UNINITIALIZED_DATE" and "\<forall>c \<in> set cs. started c"
  shows "\<forall>c \<in> set (fst (truncate_open clock t cs)). started c \<and> ended c"
proof -
  have "started (fst (truncate_open clock t cs) ! i) \<and> ended (fst (truncate_open clock t cs) ! i)"
    if i: "i < length cs" for i
  proof (cases "still_open (cs ! i)")
    case True
    then show ?thesis
      using i assms(1) by (simp add: truncate_open_nth truncate_still_open started_def ended_def still_open_def)
  next
    case False
    moreover have "started (cs ! i)" using assms(2) i by simp
    ultimately show ?thesis using i by (simp add: truncate_open_nth still_open_def)
  qed
  then show ?thesis
    by (metis in_set_conv_nth truncate_open_length)
qed

subsection \<open>RootSpan.end\<close>

lemma end_evolves: "evolves s (fst (BaseSpan_end now s))"
  by (simp add: evolves_def same_identity_def span_defs Let_def)

lemma end_spans: "spans (fst (BaseSpan_end now r)) = spans r"
  by (simp add: span_defs Let_def)

lemma end_calls_spans:
  "spans (fst (RootSpan_end_calls clock t r)) = fst (truncate_open clock t (spans r))"
  by (simp add: RootSpan_end_calls_def Let_def case_prod_beta end_spans)

lemma end_calls_root:
  "fst (RootSpan_end_calls clock t r) =
     fst (BaseSpan_end (clock (t + length (filter still_open (spans r))))
            (r\<lparr>spans := fst (truncate_open clock t (spans r))\<rparr>))"
  by (simp add: RootSpan_end_calls_def Let_def case_prod_beta truncate_open_ticks)

lemma end_calls_effects:
  "snd (snd (RootSpan_end_calls clock t r)) =
     concat (map truncation_calls (zip (spans r) (fst (truncate_open clock t (spans r))))) @
     snd (BaseSpan_end (clock (t + length (filter still_open (spans r)))) r)"
  by (simp add: RootSpan_end_calls_def Let_def case_prod_beta truncate_open_ticks
        truncate_open_effects span_defs)

lemma end_calls_ticks:
  "fst (snd (RootSpan_end_calls clock t r)) =
     t + length (filter still_open (spans r)) + (if still_open r then 1 else 0)"
  by (simp add: RootSpan_end_calls_def Let_def case_prod_beta truncate_open_ticks
        still_open_def started_def ended_def)

lemma grows_refl: "grows r r"
  by (simp add: grows_def evolves_refl)

lemma grows_trans: "grows r r' \<Longrightarrow> grows r' r'' \<Longrightarrow> grows r r''"
  unfolding grows_def
  by (meson evolves_trans' le_trans less_le_trans)

lemma end_calls_grows: "grows r (fst (RootSpan_end_calls clock t r))"
proof -
  have "evolves r (fst (RootSpan_end_calls clock t r))"
    unfolding end_calls_root
    by (simp add: evolves_def same_identity_def span_defs Let_def)
  then show ?thesis
    by (simp add: grows_def end_calls_spans truncate_open_length truncate_open_evolves)
qed

lemma end_calls_started: "started (fst (RootSpan_end_calls clock t r)) = started r"
  unfolding end_calls_root by (simp add: span_defs Let_def)

lemma end_calls_follow:
  assumes "\<forall>n. clock n \<noteq> UNINITIALIZED_DATE" and "children_follow_root r"
  shows "children_follow_root (fst (RootSpan_end_calls clock t r))"
proof -
  have "\<forall>c \<in> set (spans r). started c"
    using assms(2) by (simp add: children_follow_root_def)
  then have "\<forall>c \<in> set (fst (truncate_open clock t (spans r))). started c \<and> ended c"
    by (rule truncate_open_closes[OF assms(1)])
  moreover have "\<not> started r \<longrightarrow> fst (truncate_open clock t (spans r)) = []"
    using assms(2) by (simp add: children_follow_root_def)
  ultimately show ?thesis
    by (simp add: children_follow_root_def end_calls_spans end_calls_started)
qed

lemma end_calls_not_open:
  assumes "children_follow_root r" and "\<not> still_open r"
  shows "RootSpan_end_calls clock t r =
           (r, t, [Warn (if ended r then EndOnEnded else EndOnUnstarted)])"
proof -
  have "\<forall>c \<in> set (spans r). \<not> still_open c"
    using assms by (auto simp: children_follow_root_def still_open_def)
  then have "truncate_open clock t (spans r) = (spans r, t, [])"
    by (rule truncate_open_none)
  then show ?thesis
    using assms(2) by (auto simp: RootSpan_end_calls_def Let_def end_not_open still_open_def)
qed

subsection \<open>startChildSpan\<close>

lemma startChildSpan_refused:
  "\<not> still_open r \<Longrightarrow>
   RootSpan_startChildSpan_calls clock t nm knd sid r =
     ((r, t, [Warn (if ended r then ChildOnEndedRoot else ChildOnUnstartedRoot)]), None)"
  by (auto simp: RootSpan_startChildSpan_calls_def still_open_def)

lemma startChildSpan_accepted:
  "still_open r \<Longrightarrow>
   RootSpan_startChildSpan_calls clock t nm knd sid r =
     ((r\<lparr>spans := spans r @ [new_child r nm knd sid (clock t)]\<rparr>, Suc t,
       [Call ThisRootSpan OnStartSpan (data (new_child r nm knd sid (clock t)))]),
      Some (length (spans r)))"
  by (simp add: RootSpan_startChildSpan_calls_def still_open_def new_child_def ChildSpan_new_def
        BaseSpan_new_def createSpanData_def no_fields_def or_default_def span_defs Let_def
        UNINITIALIZED_DATE_def)

lemma root_end_still_open:
  assumes "still_open r"
  shows "listeners (fst (RootSpan_end_calls clock t r)) = []"
    and "endTime (data (fst (RootSpan_end_calls clock t r))) =
           clock (t + length (filter still_open (spans r)))"
proof -
  have "still_open (r\<lparr>spans := fst (truncate_open clock t (spans r))\<rparr>)"
    using assms by (simp add: still_open_def started_def ended_def)
  then show "listeners (fst (RootSpan_end_calls clock t r)) = []"
    and "endTime (data (fst (RootSpan_end_calls clock t r))) =
           clock (t + length (filter still_open (spans r)))"
    unfolding end_calls_root by (simp_all add: end_still_open)
qed

lemma startChildSpan_SomeD:
  assumes "RootSpan_startChildSpan k clock t nm knd sid r = Some ((r1, t1, out), Some i)"
  shows "still_open r" and "i = length (spans r)"
    and "r1 = r\<lparr>spans := spans r @ [new_child r nm knd sid (clock t)]\<rparr>"
proof -
  have op: "still_open r"
  proof (rule ccontr)
    assume "\<not> still_open r"
    then show False
      using assms by (auto simp: RootSpan_startChildSpan_def startChildSpan_refused)
  qed
  then show "still_open r" .
  show "i = length (spans r)" "r1 = r\<lparr>spans := spans r @ [new_child r nm knd sid (clock t)]\<rparr>"
    using assms unfolding RootSpan_startChildSpan_def startChildSpan_accepted[OF op]
    by auto
qed

subsection \<open>One call into a trace\<close>

lemma root_call_spans: "spans (fst (BaseSpan_call clock t m r)) = spans r"
  by (cases m) (simp_all add: span_defs Let_def case_prod_beta)

lemma truncate_calls_fst:
  "fst (RootSpan_truncate_calls clock t r) = fst (RootSpan_end_calls clock t (r\<lparr>truncated := True\<rparr>))"
  by (simp add: RootSpan_truncate_calls_def case_prod_beta)

lemma grows_truncated: "grows r (r\<lparr>truncated := True\<rparr>)"
  by (simp add: grows_def evolves_def same_identity_def started_def ended_def)

lemma follow_truncated: "children_follow_root (r\<lparr>truncated := True\<rparr>) = children_follow_root r"
  by (simp add: children_follow_root_def started_def ended_def)

lemma invoke_calls_grows: "grows r (fst (invoke_calls clock i t r))"
proof (cases i)
  case (OnRoot m)
  show ?thesis
  proof (cases "m = DoEnd \<or> m = DoTruncate")
    case True
    then show ?thesis
      using OnRoot end_calls_grows[of r clock t]
        grows_trans[OF grows_truncated end_calls_grows, of r clock t]
      by (auto simp: truncate_calls_fst)
  next
    case False
    then have "invoke_calls clock i t r = BaseSpan_call clock t m r"
      using OnRoot by (cases m) simp_all
    then show ?thesis
      by (simp add: grows_def call_evolves root_call_spans evolves_refl)
  qed
next
  case (OnChild j m)
  show ?thesis
  proof (cases "j < length (spans r)")
    case True
    have "evolves (spans r ! k) ((spans r)[j := fst (BaseSpan_call clock t m (spans r ! j))] ! k)"
      if "k < length (spans r)" for k
      using that by (cases "k = j") (simp_all add: call_evolves evolves_refl)
    then show ?thesis
      using OnChild True
      by (simp add: grows_def case_prod_beta Let_def evolves_def same_identity_def started_def ended_def)
  next
    case False
    then show ?thesis using OnChild by (simp add: grows_refl)
  qed
next
  case (StartChildSpan nm knd sid)
  show ?thesis
  proof (cases "still_open r")
    case True
    then show ?thesis
      using StartChildSpan
      by (simp add: startChildSpan_accepted grows_def evolves_def same_identity_def
            started_def ended_def nth_append)
  next
    case False
    then show ?thesis
      using StartChildSpan by (simp add: startChildSpan_refused grows_refl)
  qed
next
  case (RootHook h d)
  then show ?thesis by (simp add: grows_refl)
qed

lemma invoke_calls_follow:
  assumes clock: "\<forall>n. clock n \<noteq> UNINITIALIZED_DATE" and inv: "children_follow_root r"
  shows "children_follow_root (fst (invoke_calls clock i t r))"
proof (cases i)
  case (OnRoot m)
  show ?thesis
  proof (cases "m = DoEnd \<or> m = DoTruncate")
    case True
    then show ?thesis
      using OnRoot end_calls_follow[OF clock inv, of t]
        end_calls_follow[OF clock, of "r\<lparr>truncated := True\<rparr>" t] inv
      by (auto simp: truncate_calls_fst follow_truncated)
  next
    case False
    then have eq: "invoke_calls clock i t r = BaseSpan_call clock t m r"
      using OnRoot by (cases m) simp_all
    have ev: "evolves r (fst (BaseSpan_call clock t m r))" by (rule call_evolves)
    have "ended (fst (BaseSpan_call clock t m r)) \<longrightarrow> ended r"
      using False by (cases m) (simp_all add: span_defs Let_def case_prod_beta)
    moreover have "started r \<longrightarrow> started (fst (BaseSpan_call clock t m r))"
      using ev by (auto intro: evolves_started)
    ultimately show ?thesis
      using inv by (auto simp: eq children_follow_root_def root_call_spans)
  qed
next
  case (OnChild j m)
  show ?thesis
  proof (cases "j < length (spans r)")
    case True
    let ?c = "fst (BaseSpan_call clock t m (spans r ! j))"
    have ev: "evolves (spans r ! j) ?c" by (rule call_evolves)
    have cj: "spans r ! j \<in> set (spans r)" using True by simp
    have "started ?c \<and> (ended r \<longrightarrow> ended ?c)"
      using ev cj inv by (auto simp: children_follow_root_def intro: evolves_started evolves_ended)
    moreover have "set ((spans r)[j := ?c]) \<subseteq> insert ?c (set (spans r))"
      by (rule set_update_subset_insert)
    ultimately show ?thesis
      using OnChild True inv
      by (auto simp: children_follow_root_def case_prod_beta Let_def started_def ended_def)
  next
    case False
    then show ?thesis using OnChild inv by simp
  qed
next
  case (StartChildSpan nm knd sid)
  show ?thesis
  proof (cases "still_open r")
    case True
    have "started (new_child r nm knd sid (clock t))"
      using clock by (simp add: new_child_def started_def)
    then show ?thesis
      using StartChildSpan True inv
      by (auto simp: startChildSpan_accepted children_follow_root_def still_open_def
            started_def ended_def)
  next
    case False
    then show ?thesis
      using StartChildSpan inv by (simp add: startChildSpan_refused)
  qed
next
  case (RootHook h d)
  then show ?thesis using inv by simp
qed

lemma invoke_calls_closed_quiet:
  assumes inv: "children_follow_root r" and cl: "ended r" "started r" and op: "span_operation i"
  shows "\<not> list_ex is_Call (snd (snd (invoke_calls clock i t r)))"
proof (cases i)
  case (OnRoot m)
  have no: "\<not> still_open r" "\<not> still_open (r\<lparr>truncated := True\<rparr>)"
    using cl by (simp_all add: still_open_def ended_def started_def)
  show ?thesis
  proof (cases "m = DoEnd \<or> m = DoTruncate")
    case True
    then show ?thesis
      using OnRoot end_calls_not_open[OF inv no(1), of clock t]
        end_calls_not_open[OF _ no(2), of clock t] inv
      by (auto simp: RootSpan_truncate_calls_def follow_truncated)
  next
    case False
    then have "invoke_calls clock i t r = BaseSpan_call clock t m r"
      using OnRoot by (cases m) simp_all
    then show ?thesis using call_closed_quiet[OF cl] by simp
  qed
next
  case (OnChild j m)
  show ?thesis
  proof (cases "j < length (spans r)")
    case True
    then have "spans r ! j \<in> set (spans r)" by simp
    then have "ended (spans r ! j)" "started (spans r ! j)"
      using inv cl by (auto simp: children_follow_root_def)
    then show ?thesis
      using OnChild True call_closed_quiet[of "spans r ! j" clock t m]
      by (simp add: case_prod_beta Let_def)
  next
    case False
    then show ?thesis using OnChild by simp
  qed
next
  case (StartChildSpan nm knd sid)
  have "\<not> still_open r" using cl by (simp add: still_open_def)
  then show ?thesis using StartChildSpan by (simp add: startChildSpan_refused)
next
  case (RootHook h d)
  then show ?thesis using op by simp
qed

subsection \<open>Sequences of calls\<close>

lemma invoke_SomeD:
  assumes "invoke k clock i w = Some w'"
  shows "root w' = fst (invoke_calls clock i (ticks w) (root w))"
    and "ticks w' = fst (snd (invoke_calls clock i (ticks w) (root w)))"
    and "\<exists>out. observed w' = observed w @ out \<and>
           deliver k (listeners (root w)) (snd (snd (invoke_calls clock i (ticks w) (root w)))) = Some out"
  using assms by (auto simp: invoke_def case_prod_beta Let_def)

lemma invoke_all_grows:
  "invoke_all k clock is w = Some w' \<Longrightarrow> grows (root w) (root w')"
proof (induction "is" arbitrary: w)
  case Nil
  then show ?case by (simp add: grows_refl)
next
  case (Cons i "is")
  from Cons.prems obtain w1 where 1: "invoke k clock i w = Some w1"
    and 2: "invoke_all k clock is w1 = Some w'"
    by (auto split: option.splits)
  have "grows (root w) (root w1)"
    using invoke_SomeD(1)[OF 1] by (simp add: invoke_calls_grows)
  then show ?case using Cons.IH[OF 2] by (rule grows_trans)
qed

lemma invoke_all_follow:
  assumes "\<forall>n. clock n \<noteq> UNINITIALIZED_DATE"
  shows "invoke_all k clock is w = Some w' \<Longrightarrow> children_follow_root (root w) \<Longrightarrow>
         children_follow_root (root w')"
proof (induction "is" arbitrary: w)
  case Nil
  then show ?case by simp
next
  case (Cons i "is")
  from Cons.prems(1) obtain w1 where 1: "invoke k clock i w = Some w1"
    and 2: "invoke_all k clock is w1 = Some w'"
    by (auto split: option.splits)
  have "children_follow_root (root w1)"
    using invoke_SomeD(1)[OF 1] invoke_calls_follow[OF assms Cons.prems(2)] by simp
  then show ?case using Cons.IH[OF 2] by simp
qed

lemma new_trace_follow: "children_follow_root (root (new_trace sid uuid options))"
  by (simp add: new_trace_def children_follow_root_def RootSpan_new_def Let_def)

lemma invoke_all_closed_quiet:
  "invoke_all k clock is w = Some w' \<Longrightarrow> children_follow_root (root w) \<Longrightarrow>
   \<forall>n. clock n \<noteq> UNINITIALIZED_DATE \<Longrightarrow>
   ended (root w) \<Longrightarrow> started (root w) \<Longrightarrow> list_all span_operation is \<Longrightarrow>
   \<exists>out. observed w' = observed w @ out \<and> \<not> list_ex is_Call out"
proof (induction "is" arbitrary: w)
  case Nil
  then show ?case by simp
next
  case (Cons i "is")
  from Cons.prems(1) obtain w1 where 1: "invoke k clock i w = Some w1"
    and 2: "invoke_all k clock is w1 = Some w'"
    by (auto split: option.splits)
  let ?es = "snd (snd (invoke_calls clock i (ticks w) (root w)))"
  have op: "span_operation i" "list_all span_operation is" using Cons.prems(6) by simp_all
  have quiet: "\<not> list_ex is_Call ?es"
    using Cons.prems(2,4,5) op(1) by (rule invoke_calls_closed_quiet)
  obtain out1 where o1: "observed w1 = observed w @ out1"
    and d: "deliver k (listeners (root w)) ?es = Some out1"
    using invoke_SomeD(3)[OF 1] by blast
  have out1: "out1 = ?es" using d deliver_quiet[OF quiet] by simp
  have r1: "root w1 = fst (invoke_calls clock i (ticks w) (root w))"
    by (rule invoke_SomeD(1)[OF 1])
  have g: "grows (root w) (root w1)" unfolding r1 by (rule invoke_calls_grows)
  have f1: "children_follow_root (root w1)"
    unfolding r1 using Cons.prems(3,2) by (rule invoke_calls_follow)
  have e1: "ended (root w1)" "started (root w1)"
    using g Cons.prems(4,5) by (auto simp: grows_def intro: evolves_ended evolves_started)
  obtain out2 where o2: "observed w' = observed w1 @ out2" and q2: "\<not> list_ex is_Call out2"
    using Cons.IH[OF 2 f1 Cons.prems(3) e1 op(2)] by blast
  have "observed w' = observed w @ (out1 @ out2)" using o1 o2 by simp
  moreover have "\<not> list_ex is_Call (out1 @ out2)" using quiet out1 q2 by simp
  ultimately show ?case by blast
qed

lemma invoke_acyclic:
  "ThisRootSpan \<notin> set (listeners (root w)) \<Longrightarrow> \<exists>w'. invoke (Suc k) clock i w = Some w'"
  by (simp add: invoke_def case_prod_beta Let_def deliver_acyclic)

text \<open>
  Every sequence of calls returns when the stack has room for one call of the root's hooks,
  unless the root is registered as a listener on itself.
\<close>

lemma invoke_calls_listeners:
  "i \<noteq> OnRoot (DoRegister ThisRootSpan) \<Longrightarrow> ThisRootSpan \<notin> set (listeners r) \<Longrightarrow>
   ThisRootSpan \<notin> set (listeners (fst (invoke_calls clock i t r)))"
proof (cases i)
  case (OnRoot m)
  assume a: "i \<noteq> OnRoot (DoRegister ThisRootSpan)" "ThisRootSpan \<notin> set (listeners r)"
  have e: "set (listeners (fst (BaseSpan_end now s))) \<subseteq> set (listeners s)"
    for now and s :: RootSpan
    by (simp add: span_defs Let_def)
  show ?thesis
  proof (cases "m = DoEnd \<or> m = DoTruncate")
    case True
    then show ?thesis
      using OnRoot a(2) e[of "clock (t + length (filter still_open (spans r)))"
          "r\<lparr>spans := fst (truncate_open clock t (spans r))\<rparr>"]
        e[of "clock (t + length (filter still_open (spans r)))"
          "r\<lparr>truncated := True, spans := fst (truncate_open clock t (spans r))\<rparr>"]
      by (auto simp: truncate_calls_fst end_calls_root)
  next
    case False
    then show ?thesis
      using OnRoot a by (cases m) (auto simp: span_defs Let_def)
  qed
next
  case (OnChild j m)
  assume "ThisRootSpan \<notin> set (listeners r)"
  then show ?thesis using OnChild by (simp add: case_prod_beta Let_def)
next
  case (StartChildSpan nm knd sid)
  assume "ThisRootSpan \<notin> set (listeners r)"
  then show ?thesis
    using StartChildSpan
    by (cases "still_open r") (simp_all add: startChildSpan_accepted startChildSpan_refused)
next
  case (RootHook h d)
  assume "ThisRootSpan \<notin> set (listeners r)"
  then show ?thesis using RootHook by simp
qed

lemma invoke_all_returns:
  "OnRoot (DoRegister ThisRootSpan) \<notin> set calls \<Longrightarrow>
   ThisRootSpan \<notin> set (listeners (root w)) \<Longrightarrow>
   \<exists>w'. invoke_all (Suc k) clock calls w = Some w'"
proof (induction calls arbitrary: w)
  case Nil
  then show ?case by simp
next
  case (Cons i calls)
  obtain w1 where 1: "invoke (Suc k) clock i w = Some w1"
    using invoke_acyclic[OF Cons.prems(2)] by blast
  have "ThisRootSpan \<notin> set (listeners (root w1))"
    unfolding invoke_SomeD(1)[OF 1]
    using Cons.prems by (intro invoke_calls_listeners) auto
  then obtain w' where "invoke_all (Suc k) clock calls w1 = Some w'"
    using Cons.IH[of w1] Cons.prems(1) by auto
  then show ?case using 1 by simp
qed

subsection \<open>The concrete trace\<close>

lemmas eval_defs = example_clock_def example_calls_def example_later_def example_span_def
  new_trace_def invoke_def
  RootSpan_new_def BaseSpan_new_def ChildSpan_new_def createSpanData_def no_fields_def or_default_def
  RootSpan_startChildSpan_calls_def RootSpan_end_calls_def RootSpan_truncate_calls_def
  span_defs UNINITIALIZED_DATE_def Let_def

lemma example_trace_run:
  "invoke_all 1 example_clock example_calls (new_trace ''r1'' ''u-1'' None) = Some example_trace"
  unfolding example_trace_def by (simp add: eval_defs)

lemma example_trace_root:
  "started (root example_trace)" "\<not> ended (root example_trace)"
  "listeners (root example_trace) = [Listener 7]" "ticks example_trace = 4"
  "length (spans (root example_trace)) = 2"
  "ended (spans (root example_trace) ! 0)" "started (spans (root example_trace) ! 1)"
  "\<not> ended (spans (root example_trace) ! 1)"
  unfolding example_trace_def by (simp_all add: eval_defs)

lemma example_ended_run:
  "invoke 1 example_clock (OnRoot DoEnd) example_trace = Some example_ended"
  unfolding example_ended_def example_trace_def by (simp add: eval_defs)

lemma example_final_run:
  "invoke_all 1 example_clock example_later example_ended = Some example_final"
  unfolding example_final_def example_ended_def example_trace_def by (simp add: eval_defs)

section \<open>The claims about the constructors\<close>

text \<open>
  C10. A root span constructed without a name (no options, options without a name, or
  options whose name is the empty string) has the name \<open>'undefined'\<close>, the literal string.
\<close>

theorem RootSpan_new_name_undefined:
  assumes "options = None \<or>
           (\<exists>opts. options = Some opts \<and> (opt_name opts = None \<or> opt_name opts = Some []))"
  shows "name (data (RootSpan_new sid uuid options)) = ''undefined''"
  using assms by (auto simp: RootSpan_new_def Let_def split: option.splits)

theorem RootSpan_new_name_undefined_witness:
  "name (data (RootSpan_new ''a1'' ''u-1'' None)) = ''undefined'' \<and>
   name (data (RootSpan_new ''a1'' ''u-1''
     (Some \<lparr>opt_name = None, opt_spanContext = None, opt_kind = Some SERVER\<rparr>))) = ''undefined'' \<and>
   name (data (RootSpan_new ''a1'' ''u-1''
     (Some \<lparr>opt_name = Some [], opt_spanContext = None, opt_kind = None\<rparr>))) = ''undefined''"
proof -
  have 1: "name (data (RootSpan_new ''a1'' ''u-1'' None)) = ''undefined''"
    by (rule RootSpan_new_name_undefined) simp
  have 2: "name (data (RootSpan_new ''a1'' ''u-1''
     (Some \<lparr>opt_name = None, opt_spanContext = None, opt_kind = Some SERVER\<rparr>))) = ''undefined''"
    by (rule RootSpan_new_name_undefined) simp
  have 3: "name (data (RootSpan_new ''a1'' ''u-1''
     (Some \<lparr>opt_name = Some [], opt_spanContext = None, opt_kind = None\<rparr>))) = ''undefined''"
    by (rule RootSpan_new_name_undefined) simp
  from 1 2 3 show ?thesis by blast
qed

text \<open>
  C3. The claim: a root span constructed without a kind has the kind
  \<open>SPAN_KIND_UNSPECIFIED\<close>. That is the default \<open>createSpanData\<close> puts into every span, and a
  child span constructed without a kind keeps it; the field is declared \<open>kind: SpanKind\<close>.
  The \<open>RootSpan\<close> constructor overwrites the default with \<open>null\<close>: for a root span without
  options, for one whose options have no kind, and, since the member \<open>SPAN_KIND_UNSPECIFIED\<close>
  is the falsy number 0, even for one whose options ask for that kind.
\<close>

theorem RootSpan_new_kind_is_null:
  "kind (data (RootSpan_new ''a1'' ''u-1'' None)) = None \<and>
   kind (data (RootSpan_new ''a1'' ''u-1''
     (Some \<lparr>opt_name = Some ''root'', opt_spanContext = None, opt_kind = None\<rparr>))) = None \<and>
   kind (data (RootSpan_new ''a1'' ''u-1''
     (Some \<lparr>opt_name = Some ''root'', opt_spanContext = None,
            opt_kind = Some SPAN_KIND_UNSPECIFIED\<rparr>))) = None \<and>
   kind (data (BaseSpan_new ''a1'' no_fields)) = Some SPAN_KIND_UNSPECIFIED \<and>
   kind (data (ChildSpan_new ''c1'' no_fields)) = Some SPAN_KIND_UNSPECIFIED"
  by (simp add: RootSpan_new_def ChildSpan_new_def BaseSpan_new_def createSpanData_def
        no_fields_def or_default_def Let_def)

section \<open>The claims about single spans\<close>

text \<open>
  C1. The claim: after \<open>unregisterSpanEventListener(l)\<close> the listener list holds no entry
  identical to \<open>l\<close>, and every other listener stays registered in its order. The method
  filters with \<open>l === listener\<close>, so it keeps the entries identical to \<open>l\<close> and drops all
  others (lemma \<open>unregister_keeps\<close>). Here two listeners are registered and the first one is
  unregistered: the list then holds the first one alone. And a listener that is registered
  and then unregistered, as in the tracer's test of unregistered listeners, is still in the
  list.
\<close>

theorem unregister_keeps_only_the_listener:
  "listeners (unregisterSpanEventListener (Listener 1)
     (registerSpanEventListener (Listener 2)
        (registerSpanEventListener (Listener 1) (BaseSpan_new ''s1'' no_fields)))) =
   [Listener 1] \<and>
   listeners (unregisterSpanEventListener (Listener 1)
     (registerSpanEventListener (Listener 1) (BaseSpan_new ''s1'' no_fields))) =
   [Listener 1]"
  by (simp add: unregisterSpanEventListener_def registerSpanEventListener_def BaseSpan_new_def)

text \<open>
  What \<open>start()\<close> does, in terms of the listener list as it stands. The first \<open>start()\<close> of a
  span sets its start time to the clock's reading and calls the start hook of each entry of
  the list, in the order of the list, with the span's data; every later \<open>start()\<close> returns
  the span as it is and calls no listener (it writes one warning to the logger). The clock's
  reading is not the sentinel \<open>UNINITIALIZED_DATE\<close>. The first part is about a span of any
  class on its own, whatever methods of \<open>BaseSpan\<close> are called between the two starts; the
  second part is about the root span and the children of a trace, whatever calls are made
  into the trace in between, \<open>RootSpan.end\<close> among them.
\<close>

lemma start_only_once:
  fixes s :: "'a BaseSpan_scheme"
  shows "(\<not> started s \<and> now \<noteq> UNINITIALIZED_DATE \<longrightarrow>
            BaseSpan_start now s =
              (s\<lparr>data := (data s)\<lparr>startTime := now\<rparr>\<rparr>,
               map (\<lambda>l. Call l OnStartSpan ((data s)\<lparr>startTime := now\<rparr>)) (listeners s)) \<and>
            (let s' = fst (BaseSpan_calls clock t ms (fst (BaseSpan_start now s)))
             in startTime (data s') = now \<and>
                BaseSpan_start later s' = (s', [Warn StartOnStarted]))) \<and>
         (invoke_all k clock' calls w = Some w' \<longrightarrow>
            (started (root w) \<longrightarrow>
               startTime (data (root w')) = startTime (data (root w)) \<and>
               BaseSpan_start later (root w') = (root w', [Warn StartOnStarted])) \<and>
            (j < length (spans (root w)) \<and> started (spans (root w) ! j) \<longrightarrow>
               startTime (data (spans (root w') ! j)) = startTime (data (spans (root w) ! j)) \<and>
               BaseSpan_start later (spans (root w') ! j) =
                 (spans (root w') ! j, [Warn StartOnStarted])))"
proof (intro conjI impI)
  assume a: "\<not> started s \<and> now \<noteq> UNINITIALIZED_DATE"
  then show first: "BaseSpan_start now s =
           (s\<lparr>data := (data s)\<lparr>startTime := now\<rparr>\<rparr>,
            map (\<lambda>l. Call l OnStartSpan ((data s)\<lparr>startTime := now\<rparr>)) (listeners s))"
    by (simp add: start_unstarted)
  let ?s1 = "fst (BaseSpan_start now s)"
  let ?s' = "fst (BaseSpan_calls clock t ms ?s1)"
  have s1: "started ?s1" "startTime (data ?s1) = now"
    using a unfolding first by (simp_all add: started_def)
  have ev: "evolves ?s1 ?s'" by (rule calls_evolves)
  then have "started ?s'" using s1(1) by (rule evolves_started)
  moreover have "startTime (data ?s') = now" using ev s1 by (simp add: evolves_def)
  ultimately have "startTime (data ?s') = now \<and>
      BaseSpan_start later ?s' = (?s', [Warn StartOnStarted])"
    using start_started by blast
  then show "let s' = ?s' in startTime (data s') = now \<and>
               BaseSpan_start later s' = (s', [Warn StartOnStarted])"
    unfolding Let_def .
next
  assume run: "invoke_all k clock' calls w = Some w'" and st: "started (root w)"
  have g: "grows (root w) (root w')" using run by (rule invoke_all_grows)
  then have ev: "evolves (root w) (root w')" by (simp add: grows_def)
  show "startTime (data (root w')) = startTime (data (root w))"
    using ev st by (simp add: evolves_def)
  have "started (root w')" using ev st by (rule evolves_started)
  then show "BaseSpan_start later (root w') = (root w', [Warn StartOnStarted])"
    by (rule start_started)
next
  assume run: "invoke_all k clock' calls w = Some w'"
    and st: "j < length (spans (root w)) \<and> started (spans (root w) ! j)"
  have g: "grows (root w) (root w')" using run by (rule invoke_all_grows)
  then have ev: "evolves (spans (root w) ! j) (spans (root w') ! j)"
    using st by (simp add: grows_def)
  show "startTime (data (spans (root w') ! j)) = startTime (data (spans (root w) ! j))"
    using ev st by (simp add: evolves_def)
  have "started (spans (root w') ! j)" using ev st by (blast intro: evolves_started)
  then show "BaseSpan_start later (spans (root w') ! j) =
                 (spans (root w') ! j, [Warn StartOnStarted])"
    by (rule start_started)
qed

text \<open>
  Registration appends to the list, so on a span on which listeners have only been
  registered, \<open>start()\<close> calls them in the order of their registration.
\<close>

lemma registrations_append:
  "listeners (fold registerSpanEventListener ls s) = listeners s @ ls"
  by (induction ls arbitrary: s) (simp_all add: registerSpanEventListener_def)

lemma registrations_keep_data:
  "data (fold registerSpanEventListener ls s) = data s"
  by (induction ls arbitrary: s) (simp_all add: registerSpanEventListener_def)

lemma start_in_registration_order:
  assumes "\<not> started s"
  shows "snd (BaseSpan_start now (fold registerSpanEventListener ls s)) =
           map (\<lambda>l. Call l OnStartSpan ((data s)\<lparr>startTime := now\<rparr>)) (listeners s @ ls)"
proof -
  have "\<not> started (fold registerSpanEventListener ls s)"
    using assms by (simp add: started_def registrations_keep_data)
  then show ?thesis
    by (simp add: start_unstarted registrations_append registrations_keep_data)
qed

lemma example_span_facts:
  "\<not> started example_span" "\<not> ended example_span"
  "listeners example_span = [Listener 7]"
  by (simp_all add: eval_defs)

text \<open>
  C5. The claim: the first \<open>start()\<close> notifies the start hook of each registered listener, in
  the order of registration, and a later \<open>start()\<close> changes nothing and notifies nobody. The
  second half holds, and so does the first on a span on which no listener has been
  unregistered (the lemmas above). But \<open>start()\<close> goes through the list that
  \<open>unregisterSpanEventListener\<close> leaves, and that method keeps the listener it is to remove
  and drops the others. Here listener 1 and then listener 2 are registered on a new span
  and listener 1 is unregistered, so that listener 2 is the one registered listener: the
  first \<open>start()\<close> calls the hook of listener 1 and does not call the hook of listener 2.
\<close>

theorem start_notifies_the_unregistered_listener:
  "snd (BaseSpan_start 1000
     (unregisterSpanEventListener (Listener 1)
        (registerSpanEventListener (Listener 2)
           (registerSpanEventListener (Listener 1) (BaseSpan_new ''s1'' no_fields))))) =
   [Call (Listener 1) OnStartSpan ((data (BaseSpan_new ''s1'' no_fields))\<lparr>startTime := 1000\<rparr>)]"
  by (simp add: BaseSpan_start_def notify_def started_def unregisterSpanEventListener_def
        registerSpanEventListener_def BaseSpan_new_def createSpanData_def no_fields_def
        or_default_def UNINITIALIZED_DATE_def Let_def)

lemma invoke_all_append:
  "invoke_all k clock (xs @ ys) w =
     (case invoke_all k clock xs w of None \<Rightarrow> None | Some w' \<Rightarrow> invoke_all k clock ys w')"
  by (induction xs arbitrary: w) (auto split: option.splits)

lemma example_ended_reached:
  "invoke_all 1 example_clock (example_calls @ [OnRoot DoEnd]) (new_trace ''r1'' ''u-1'' None) =
     Some example_ended"
  using example_trace_run example_ended_run by (simp add: invoke_all_append)

lemma example_ended_root:
  "ended (root example_ended)" "started (root example_ended)"
  "listeners (root example_ended) = []"
  unfolding example_ended_def example_trace_def by (simp_all add: eval_defs)

text \<open>
  C6. \<open>end()\<close> on a span that is not started, or that is already ended, returns the span as
  it is: no end time is set or changed, no start time is made up, no listener is called, and
  the one thing that happens is a warning to the logger. The method returns: the model has
  no branch in which it throws. The first part is \<open>BaseSpan.end\<close> on a span of any class. The
  second part is the overriding \<open>RootSpan.end\<close> on the root of any trace that calls of the
  methods have built from a new root span while the clock never read the sentinel: there no
  child is left that the loop would truncate, whatever room the call stack has.
\<close>

theorem end_refused:
  fixes s :: "'a BaseSpan_scheme"
  shows "(ended s \<or> \<not> started s \<longrightarrow>
            BaseSpan_end now s = (s, [Warn (if ended s then EndOnEnded else EndOnUnstarted)])) \<and>
         (invoke_all k clock calls (new_trace sid uuid options) = Some w \<and>
          (\<forall>n. clock n \<noteq> UNINITIALIZED_DATE) \<and>
          (ended (root w) \<or> \<not> started (root w)) \<longrightarrow>
            RootSpan_end k' clock' t' (root w) =
              Some (root w, t', [Warn (if ended (root w) then EndOnEnded else EndOnUnstarted)]))"
proof (intro conjI impI)
  assume "ended s \<or> \<not> started s"
  then have "\<not> still_open s" by (auto simp: still_open_def)
  then show "BaseSpan_end now s = (s, [Warn (if ended s then EndOnEnded else EndOnUnstarted)])"
    by (rule end_not_open)
next
  assume a: "invoke_all k clock calls (new_trace sid uuid options) = Some w \<and>
          (\<forall>n. clock n \<noteq> UNINITIALIZED_DATE) \<and>
          (ended (root w) \<or> \<not> started (root w))"
  then have inv: "children_follow_root (root w)"
    using invoke_all_follow[of clock k calls "new_trace sid uuid options" w] new_trace_follow
    by blast
  have "\<not> still_open (root w)" using a by (auto simp: still_open_def)
  then have "RootSpan_end_calls clock' t' (root w) =
      (root w, t', [Warn (if ended (root w) then EndOnEnded else EndOnUnstarted)])"
    by (rule end_calls_not_open[OF inv])
  then show "RootSpan_end k' clock' t' (root w) =
      Some (root w, t', [Warn (if ended (root w) then EndOnEnded else EndOnUnstarted)])"
    by (simp add: RootSpan_end_def deliver_quiet)
qed

lemma example_clock_set: "\<forall>n. example_clock n \<noteq> UNINITIALIZED_DATE"
  by (simp add: example_clock_def UNINITIALIZED_DATE_def)

theorem end_refused_witness:
  "(ended example_span \<or> \<not> started example_span) \<and>
   BaseSpan_end 1000 example_span = (example_span, [Warn EndOnUnstarted]) \<and>
   invoke_all 1 example_clock (example_calls @ [OnRoot DoEnd]) (new_trace ''r1'' ''u-1'' None) =
     Some example_ended \<and>
   (\<forall>n. example_clock n \<noteq> UNINITIALIZED_DATE) \<and>
   (ended (root example_ended) \<or> \<not> started (root example_ended)) \<and>
   RootSpan_end 0 example_clock 9 (root example_ended) =
     Some (root example_ended, 9, [Warn EndOnEnded])"
proof -
  note T = end_refused[of example_span 1000 1 example_clock "example_calls @ [OnRoot DoEnd]"
      "''r1''" "''u-1''" None example_ended 0 example_clock 9]
  have h1: "ended example_span \<or> \<not> started example_span"
    by (simp add: example_span_facts)
  have h2: "invoke_all 1 example_clock (example_calls @ [OnRoot DoEnd])
      (new_trace ''r1'' ''u-1'' None) = Some example_ended"
    by (rule example_ended_reached)
  have h3: "\<forall>n. example_clock n \<noteq> UNINITIALIZED_DATE" by (rule example_clock_set)
  have h4: "ended (root example_ended) \<or> \<not> started (root example_ended)"
    by (simp add: example_ended_root)
  have A: "BaseSpan_end 1000 example_span =
      (example_span, [Warn (if ended example_span then EndOnEnded else EndOnUnstarted)])"
    using T h1 by blast
  have B: "RootSpan_end 0 example_clock 9 (root example_ended) =
      Some (root example_ended, 9,
        [Warn (if ended (root example_ended) then EndOnEnded else EndOnUnstarted)])"
    using T h2 h3 h4 by blast
  have A': "BaseSpan_end 1000 example_span = (example_span, [Warn EndOnUnstarted])"
    using A example_span_facts(2) by simp
  have B': "RootSpan_end 0 example_clock 9 (root example_ended) =
      Some (root example_ended, 9, [Warn EndOnEnded])"
    using B example_ended_root(1) by simp
  from h1 h2 h3 h4 A' B' show ?thesis by blast
qed

text \<open>
  C9. When \<open>end()\<close> goes through (the span is started and not ended, and the clock's reading
  is not the sentinel), the end time is set, the end hook of each listener is called in the
  order of registration, and the listener list is emptied. From then on no call delivers
  anything to any listener. The first part is \<open>BaseSpan.end\<close> on a span of any class,
  followed by any sequence of the methods of \<open>BaseSpan\<close>, registrations included. The second
  part is \<open>RootSpan.end\<close> on the root of a trace built from a new root span, followed by any
  sequence of operations on the root and on its children; the root's own hooks, which a
  span outside the trace could still call, are not operations of the span.
\<close>

theorem end_is_final:
  fixes s :: "'a BaseSpan_scheme"
  shows "(still_open s \<and> now \<noteq> UNINITIALIZED_DATE \<longrightarrow>
            BaseSpan_end now s =
              (s\<lparr>data := (data s)\<lparr>endTime := now\<rparr>, listeners := []\<rparr>,
               map (\<lambda>l. Call l OnEndSpan ((data s)\<lparr>endTime := now\<rparr>)) (listeners s)) \<and>
            \<not> list_ex is_Call (snd (snd (BaseSpan_calls ck t ms (fst (BaseSpan_end now s)))))) \<and>
         (invoke_all k clock calls (new_trace sid uuid options) = Some w \<and>
          (\<forall>n. clock n \<noteq> UNINITIALIZED_DATE) \<and> still_open (root w) \<and>
          invoke k clock (OnRoot DoEnd) w = Some w1 \<and>
          list_all span_operation later \<and> invoke_all k clock later w1 = Some w2 \<longrightarrow>
            listeners (root w1) = [] \<and> ended (root w1) \<and>
            (\<exists>out. observed w2 = observed w1 @ out \<and> \<not> list_ex is_Call out))"
proof (intro conjI impI)
  assume a: "still_open s \<and> now \<noteq> UNINITIALIZED_DATE"
  then show e: "BaseSpan_end now s =
              (s\<lparr>data := (data s)\<lparr>endTime := now\<rparr>, listeners := []\<rparr>,
               map (\<lambda>l. Call l OnEndSpan ((data s)\<lparr>endTime := now\<rparr>)) (listeners s))"
    by (simp add: end_still_open)
  have "ended (fst (BaseSpan_end now s))" "started (fst (BaseSpan_end now s))"
    using a unfolding e by (simp_all add: ended_def started_def still_open_def)
  then show "\<not> list_ex is_Call (snd (snd (BaseSpan_calls ck t ms (fst (BaseSpan_end now s)))))"
    by (rule calls_closed_quiet)
next
  assume a: "invoke_all k clock calls (new_trace sid uuid options) = Some w \<and>
          (\<forall>n. clock n \<noteq> UNINITIALIZED_DATE) \<and> still_open (root w) \<and>
          invoke k clock (OnRoot DoEnd) w = Some w1 \<and>
          list_all span_operation later \<and> invoke_all k clock later w1 = Some w2"
  then have clock: "\<forall>n. clock n \<noteq> UNINITIALIZED_DATE" and op: "still_open (root w)"
    and 1: "invoke k clock (OnRoot DoEnd) w = Some w1"
    and ops: "list_all span_operation later" and 2: "invoke_all k clock later w1 = Some w2"
    by blast+
  have inv: "children_follow_root (root w)"
    using a invoke_all_follow[of clock k calls "new_trace sid uuid options" w] new_trace_follow
    by blast
  have r1: "root w1 = fst (RootSpan_end_calls clock (ticks w) (root w))"
    using invoke_SomeD(1)[OF 1] by simp
  have inv1: "children_follow_root (root w1)"
    unfolding r1 using clock inv by (rule end_calls_follow)
  show l1: "listeners (root w1) = []"
    unfolding r1 using op by (rule root_end_still_open)
  have "endTime (data (root w1)) \<noteq> UNINITIALIZED_DATE"
    unfolding r1 using root_end_still_open(2)[OF op] clock by simp
  then show e1: "ended (root w1)" by (simp add: ended_def)
  have s1: "started (root w1)"
    unfolding r1 using op by (simp add: end_calls_started still_open_def)
  show "\<exists>out. observed w2 = observed w1 @ out \<and> \<not> list_ex is_Call out"
    using 2 inv1 clock e1 s1 ops by (rule invoke_all_closed_quiet)
qed

theorem end_is_final_witness:
  "still_open (fst (BaseSpan_start 1000 example_span)) \<and> (1001 :: int) \<noteq> UNINITIALIZED_DATE \<and>
   \<not> list_ex is_Call (snd (snd (BaseSpan_calls example_clock 2
        [DoRegister (Listener 7), DoStart, DoEnd, DoTruncate, DoAddAttribute ''k'' (AttrBoolean True)]
        (fst (BaseSpan_end 1001 (fst (BaseSpan_start 1000 example_span))))))) \<and>
   invoke_all 1 example_clock example_calls (new_trace ''r1'' ''u-1'' None) = Some example_trace \<and>
   (\<forall>n. example_clock n \<noteq> UNINITIALIZED_DATE) \<and> still_open (root example_trace) \<and>
   invoke 1 example_clock (OnRoot DoEnd) example_trace = Some example_ended \<and>
   list_all span_operation example_later \<and>
   invoke_all 1 example_clock example_later example_ended = Some example_final \<and>
   listeners (root example_ended) = [] \<and> ended (root example_ended) \<and>
   (\<exists>out. observed example_final = observed example_ended @ out \<and> \<not> list_ex is_Call out)"
proof -
  note T = end_is_final[of "fst (BaseSpan_start 1000 example_span)" 1001 example_clock 2
      "[DoRegister (Listener 7), DoStart, DoEnd, DoTruncate, DoAddAttribute ''k'' (AttrBoolean True)]"
      1 example_clock example_calls "''r1''" "''u-1''" None example_trace example_ended
      example_later example_final]
  have h1: "still_open (fst (BaseSpan_start 1000 example_span)) \<and>
      (1001 :: int) \<noteq> UNINITIALIZED_DATE"
    by (simp add: still_open_def eval_defs)
  have h2: "invoke_all 1 example_clock example_calls (new_trace ''r1'' ''u-1'' None) =
      Some example_trace"
    by (rule example_trace_run)
  have h3: "\<forall>n. example_clock n \<noteq> UNINITIALIZED_DATE" by (rule example_clock_set)
  have h4: "still_open (root example_trace)"
    by (simp add: still_open_def example_trace_root)
  have h5: "invoke 1 example_clock (OnRoot DoEnd) example_trace = Some example_ended"
    by (rule example_ended_run)
  have h6: "list_all span_operation example_later" by (simp add: example_later_def)
  have h7: "invoke_all 1 example_clock example_later example_ended = Some example_final"
    by (rule example_final_run)
  have A: "\<not> list_ex is_Call (snd (snd (BaseSpan_calls example_clock 2
        [DoRegister (Listener 7), DoStart, DoEnd, DoTruncate, DoAddAttribute ''k'' (AttrBoolean True)]
        (fst (BaseSpan_end 1001 (fst (BaseSpan_start 1000 example_span)))))))"
    using T h1 by blast
  have B: "listeners (root example_ended) = [] \<and> ended (root example_ended) \<and>
      (\<exists>out. observed example_final = observed example_ended @ out \<and> \<not> list_ex is_Call out)"
    using T h2 h3 h4 h5 h6 h7 by blast
  from h1 h2 h3 h4 h5 h6 h7 A B show ?thesis by blast
qed

section \<open>The claims about a root span and its children\<close>

text \<open>
  C7. \<open>startChildSpan\<close> on a root that is ended, or not started, returns \<open>null\<close>: the root and
  its child list stay as they are, a warning goes to the logger, and the method returns
  whatever room the call stack has. On a root that is started and not ended it returns a
  new child span: the child has the root as its one listener, is started with the clock's
  reading, and is appended at the end of the child list, so the list is in the order of
  creation; the root's listeners learn of the start through the root's hook. For the second
  part the clock's reading is not the sentinel, the root is not a listener on itself (its
  hook would call itself without end), and the stack has room for one call of that hook.
\<close>

theorem startChildSpan_result:
  "(ended r \<or> \<not> started r \<longrightarrow>
      RootSpan_startChildSpan k clock t nm knd sid r =
        Some ((r, t, [Warn (if ended r then ChildOnEndedRoot else ChildOnUnstartedRoot)]), None)) \<and>
   (\<not> ended r \<and> started r \<and> ThisRootSpan \<notin> set (listeners r) \<and>
    clock t \<noteq> UNINITIALIZED_DATE \<longrightarrow>
      (let child = new_child r nm knd sid (clock t)
       in RootSpan_startChildSpan (Suc k) clock t nm knd sid r =
            Some ((r\<lparr>spans := spans r @ [child]\<rparr>, Suc t,
                   map (\<lambda>l. Call l OnStartSpan (data child)) (listeners r)),
                  Some (length (spans r))) \<and>
          started child \<and> \<not> ended child \<and> listeners child = [ThisRootSpan]))"
proof (intro conjI impI)
  assume "ended r \<or> \<not> started r"
  then have "\<not> still_open r" by (auto simp: still_open_def)
  then show "RootSpan_startChildSpan k clock t nm knd sid r =
        Some ((r, t, [Warn (if ended r then ChildOnEndedRoot else ChildOnUnstartedRoot)]), None)"
    by (simp add: RootSpan_startChildSpan_def startChildSpan_refused deliver_quiet)
next
  assume a: "\<not> ended r \<and> started r \<and> ThisRootSpan \<notin> set (listeners r) \<and>
    clock t \<noteq> UNINITIALIZED_DATE"
  let ?child = "new_child r nm knd sid (clock t)"
  have op: "still_open r" using a by (simp add: still_open_def)
  have acyclic: "ThisRootSpan \<notin> set (listeners r)" using a by simp
  have d: "deliver (Suc k) (listeners r) [Call ThisRootSpan OnStartSpan (data ?child)] =
      Some (map (\<lambda>l. Call l OnStartSpan (data ?child)) (listeners r))"
    using deliver_acyclic[OF acyclic, of k "[Call ThisRootSpan OnStartSpan (data ?child)]"]
    by simp
  have 1: "RootSpan_startChildSpan (Suc k) clock t nm knd sid r =
            Some ((r\<lparr>spans := spans r @ [?child]\<rparr>, Suc t,
                   map (\<lambda>l. Call l OnStartSpan (data ?child)) (listeners r)),
                  Some (length (spans r)))"
    unfolding RootSpan_startChildSpan_def startChildSpan_accepted[OF op] using d by simp
  have 2: "started ?child" "\<not> ended ?child" "listeners ?child = [ThisRootSpan]"
    using a by (simp_all add: new_child_def started_def ended_def)
  show "let child = ?child
       in RootSpan_startChildSpan (Suc k) clock t nm knd sid r =
            Some ((r\<lparr>spans := spans r @ [child]\<rparr>, Suc t,
                   map (\<lambda>l. Call l OnStartSpan (data child)) (listeners r)),
                  Some (length (spans r))) \<and>
          started child \<and> \<not> ended child \<and> listeners child = [ThisRootSpan]"
    unfolding Let_def using 1 2 by blast
qed

lemma example_trace_acyclic: "ThisRootSpan \<notin> set (listeners (root example_trace))"
  by (simp add: example_trace_root)

theorem startChildSpan_result_witness:
  "(ended (root example_ended) \<or> \<not> started (root example_ended)) \<and>
   RootSpan_startChildSpan 0 example_clock 9 ''c'' None ''c3'' (root example_ended) =
     Some ((root example_ended, 9, [Warn ChildOnEndedRoot]), None) \<and>
   \<not> ended (root example_trace) \<and> started (root example_trace) \<and>
   ThisRootSpan \<notin> set (listeners (root example_trace)) \<and>
   example_clock 4 \<noteq> UNINITIALIZED_DATE \<and>
   (let child = new_child (root example_trace) ''c'' None ''c3'' (example_clock 4)
    in RootSpan_startChildSpan (Suc 0) example_clock 4 ''c'' None ''c3'' (root example_trace) =
         Some (((root example_trace)\<lparr>spans := spans (root example_trace) @ [child]\<rparr>, Suc 4,
                map (\<lambda>l. Call l OnStartSpan (data child)) (listeners (root example_trace))),
               Some (length (spans (root example_trace)))) \<and>
       started child \<and> \<not> ended child \<and> listeners child = [ThisRootSpan])"
proof -
  note T1 = startChildSpan_result[of "root example_ended" 0 example_clock 9 "''c''" None "''c3''"]
  note T2 = startChildSpan_result[of "root example_trace" 0 example_clock 4 "''c''" None "''c3''"]
  have h1: "ended (root example_ended) \<or> \<not> started (root example_ended)"
    by (simp add: example_ended_root)
  have h2: "\<not> ended (root example_trace) \<and> started (root example_trace) \<and>
      ThisRootSpan \<notin> set (listeners (root example_trace)) \<and>
      example_clock 4 \<noteq> UNINITIALIZED_DATE"
    using example_clock_set by (simp add: example_trace_root)
  have A: "RootSpan_startChildSpan 0 example_clock 9 ''c'' None ''c3'' (root example_ended) =
     Some ((root example_ended, 9,
       [Warn (if ended (root example_ended) then ChildOnEndedRoot else ChildOnUnstartedRoot)]),
       None)"
    using T1 h1 by blast
  have A': "RootSpan_startChildSpan 0 example_clock 9 ''c'' None ''c3'' (root example_ended) =
     Some ((root example_ended, 9, [Warn ChildOnEndedRoot]), None)"
    using A example_ended_root(1) by simp
  have B: "let child = new_child (root example_trace) ''c'' None ''c3'' (example_clock 4)
    in RootSpan_startChildSpan (Suc 0) example_clock 4 ''c'' None ''c3'' (root example_trace) =
         Some (((root example_trace)\<lparr>spans := spans (root example_trace) @ [child]\<rparr>, Suc 4,
                map (\<lambda>l. Call l OnStartSpan (data child)) (listeners (root example_trace))),
               Some (length (spans (root example_trace)))) \<and>
       started child \<and> \<not> ended child \<and> listeners child = [ThisRootSpan]"
    using T2 h2 by blast
  from h1 h2 A' B show ?thesis by blast
qed

text \<open>
  C4. \<open>end()\<close> on a root span goes through the child list in its order. A child that is
  started and not ended is truncated: it gets the clock's reading at its turn as its end
  time, is marked as truncated, its listeners' end hooks are called with its data, and its
  listener list is emptied. Every other child, an ended one among them, stays exactly as it
  is. After the last child the root's own \<open>end()\<close> runs, on the root as it was, with the next
  reading of the clock. What reaches the outside is first the children's calls, in the order
  of the children, then those of the root's own end. The clock never reads the sentinel, the
  root is not a listener on itself, and the stack has room for one call of the root's hook.
\<close>

theorem RootSpan_end_truncates_open_children:
  assumes acyclic: "ThisRootSpan \<notin> set (listeners r)"
    and clock: "\<forall>n. clock n \<noteq> UNINITIALIZED_DATE"
  shows "\<exists>r' out.
      RootSpan_end (Suc k) clock t r =
        Some (r', t + length (filter still_open (spans r)) + (if still_open r then 1 else 0), out) \<and>
      length (spans r') = length (spans r) \<and>
      (\<forall>i < length (spans r).
         if still_open (spans r ! i)
         then spans r' ! i =
                (spans r ! i)\<lparr>data := (data (spans r ! i))
                    \<lparr>endTime := clock (t + length (filter still_open (take i (spans r))))\<rparr>,
                  truncated := True, listeners := []\<rparr> \<and>
              ended (spans r' ! i)
         else spans r' ! i = spans r ! i) \<and>
      r'\<lparr>spans := spans r\<rparr> =
        fst (BaseSpan_end (clock (t + length (filter still_open (spans r)))) r) \<and>
      out = concat (map (forwarded (listeners r))
                      (concat (map truncation_calls (zip (spans r) (spans r'))))) @
            concat (map (forwarded (listeners r))
                      (snd (BaseSpan_end (clock (t + length (filter still_open (spans r)))) r)))"
proof -
  let ?r' = "fst (RootSpan_end_calls clock t r)"
  let ?es = "snd (snd (RootSpan_end_calls clock t r))"
  let ?n = "t + length (filter still_open (spans r))"
  let ?out = "concat (map (forwarded (listeners r)) ?es)"
  have run: "RootSpan_end (Suc k) clock t r =
      Some (?r', ?n + (if still_open r then 1 else 0), ?out)"
    by (simp add: RootSpan_end_def case_prod_beta deliver_acyclic[OF acyclic] end_calls_ticks)
  have sp: "spans ?r' = fst (truncate_open clock t (spans r))" by (rule end_calls_spans)
  have len: "length (spans ?r') = length (spans r)"
    by (simp add: sp truncate_open_length)
  have child: "if still_open (spans r ! i)
         then spans ?r' ! i =
                (spans r ! i)\<lparr>data := (data (spans r ! i))
                    \<lparr>endTime := clock (t + length (filter still_open (take i (spans r))))\<rparr>,
                  truncated := True, listeners := []\<rparr> \<and>
              ended (spans ?r' ! i)
         else spans ?r' ! i = spans r ! i" if i: "i < length (spans r)" for i
  proof (cases "still_open (spans r ! i)")
    case True
    have "spans ?r' ! i = (spans r ! i)\<lparr>data := (data (spans r ! i))
                    \<lparr>endTime := clock (t + length (filter still_open (take i (spans r))))\<rparr>,
                  truncated := True, listeners := []\<rparr>"
      using i True by (simp add: sp truncate_open_nth truncate_still_open)
    moreover from this have "ended (spans ?r' ! i)"
      using clock by (simp add: ended_def)
    ultimately show ?thesis using True by simp
  next
    case False
    then show ?thesis using i by (simp add: sp truncate_open_nth)
  qed
  have own: "?r'\<lparr>spans := spans r\<rparr> = fst (BaseSpan_end (clock ?n) r)"
    unfolding end_calls_root by (simp add: span_defs Let_def)
  have out: "?out = concat (map (forwarded (listeners r))
                      (concat (map truncation_calls (zip (spans r) (spans ?r'))))) @
            concat (map (forwarded (listeners r)) (snd (BaseSpan_end (clock ?n) r)))"
    by (simp add: end_calls_effects sp)
  show ?thesis
    using run len child own out by blast
qed

theorem RootSpan_end_truncates_open_children_witness:
  "ThisRootSpan \<notin> set (listeners (root example_trace)) \<and>
   (\<forall>n. example_clock n \<noteq> UNINITIALIZED_DATE) \<and>
   ended (spans (root example_trace) ! 0) \<and> still_open (spans (root example_trace) ! 1) \<and>
   (\<exists>r' out.
      RootSpan_end (Suc 0) example_clock 4 (root example_trace) =
        Some (r', 4 + length (filter still_open (spans (root example_trace))) +
                  (if still_open (root example_trace) then 1 else 0), out) \<and>
      length (spans r') = length (spans (root example_trace)) \<and>
      (\<forall>i < length (spans (root example_trace)).
         if still_open (spans (root example_trace) ! i)
         then spans r' ! i =
                (spans (root example_trace) ! i)\<lparr>data := (data (spans (root example_trace) ! i))
                    \<lparr>endTime := example_clock
                       (4 + length (filter still_open (take i (spans (root example_trace)))))\<rparr>,
                  truncated := True, listeners := []\<rparr> \<and>
              ended (spans r' ! i)
         else spans r' ! i = spans (root example_trace) ! i) \<and>
      r'\<lparr>spans := spans (root example_trace)\<rparr> =
        fst (BaseSpan_end
          (example_clock (4 + length (filter still_open (spans (root example_trace)))))
          (root example_trace)) \<and>
      out = concat (map (forwarded (listeners (root example_trace)))
                      (concat (map truncation_calls (zip (spans (root example_trace)) (spans r'))))) @
            concat (map (forwarded (listeners (root example_trace)))
                      (snd (BaseSpan_end
                         (example_clock (4 + length (filter still_open (spans (root example_trace)))))
                         (root example_trace)))))"
proof -
  have h1: "ThisRootSpan \<notin> set (listeners (root example_trace))"
    by (rule example_trace_acyclic)
  have h2: "\<forall>n. example_clock n \<noteq> UNINITIALIZED_DATE" by (rule example_clock_set)
  have h3: "ended (spans (root example_trace) ! 0)" "still_open (spans (root example_trace) ! 1)"
    using example_trace_root(6,7,8) by (simp_all add: still_open_def)
  note T = RootSpan_end_truncates_open_children[OF h1 h2, of 0 4]
  from h1 h2 h3 T show ?thesis by blast
qed

text \<open>
  C8. A child that \<open>startChildSpan\<close> returns has the root's trace id, the root's span id as
  its parent span id, and the same-process flag set; whatever calls are then made into the
  trace (methods of the root, methods of any child, further children, the root's hooks),
  the child at its position keeps these three fields and its span id, and the root keeps its
  span id and its trace id.
\<close>

theorem child_identity_fixed:
  assumes create: "RootSpan_startChildSpan k clock t nm knd sid r = Some ((r1, t1, out), Some i)"
    and later: "invoke_all k' clock' calls \<lparr>root = r1, ticks = t1, observed = obs\<rparr> = Some w"
  shows "i < length (spans (root w)) \<and>
         traceId (data (spans (root w) ! i)) = traceId (data r) \<and>
         parentSpanId (data (spans (root w) ! i)) = spanId (data r) \<and>
         sameProcessAsParentSpan (data (spans (root w) ! i)) = Some True \<and>
         spanId (data (spans (root w) ! i)) = sid \<and>
         traceId (data (root w)) = traceId (data r) \<and>
         spanId (data (root w)) = spanId (data r)"
proof -
  let ?c = "new_child r nm knd sid (clock t)"
  have i: "i = length (spans r)" and r1: "r1 = r\<lparr>spans := spans r @ [?c]\<rparr>"
    using startChildSpan_SomeD[OF create] by simp_all
  have g: "grows r1 (root w)" using invoke_all_grows[OF later] by simp
  have lt: "i < length (spans r1)" by (simp add: i r1)
  then have "i < length (spans (root w))" using g by (simp add: grows_def)
  moreover have "evolves (spans r1 ! i) (spans (root w) ! i)"
    using g lt by (simp add: grows_def)
  then have "same_identity ?c (spans (root w) ! i)"
    by (simp add: evolves_def r1 i)
  moreover have "same_identity r (root w)"
    using g by (simp add: grows_def evolves_def same_identity_def r1)
  ultimately show ?thesis
    by (simp add: same_identity_def new_child_def)
qed

theorem child_identity_fixed_witness:
  "\<exists>r1 out w.
     RootSpan_startChildSpan 1 example_clock 4 ''c'' None ''c3'' (root example_trace) =
       Some ((r1, 5, out), Some 2) \<and>
     invoke_all 1 example_clock
       [OnChild 2 (DoSetStatus 2 None), OnChild 2 DoEnd, OnRoot DoEnd, OnChild 2 DoStart]
       \<lparr>root = r1, ticks = 5, observed = []\<rparr> = Some w \<and>
     2 < length (spans (root w)) \<and>
     traceId (data (spans (root w) ! 2)) = traceId (data (root example_trace)) \<and>
     parentSpanId (data (spans (root w) ! 2)) = spanId (data (root example_trace)) \<and>
     sameProcessAsParentSpan (data (spans (root w) ! 2)) = Some True \<and>
     spanId (data (spans (root w) ! 2)) = ''c3'' \<and>
     traceId (data (root w)) = traceId (data (root example_trace)) \<and>
     spanId (data (root w)) = spanId (data (root example_trace))"
proof -
  let ?r = "root example_trace"
  let ?c = "new_child ?r ''c'' None ''c3'' (example_clock 4)"
  let ?r1 = "?r\<lparr>spans := spans ?r @ [?c]\<rparr>"
  let ?out = "[Call (Listener 7) OnStartSpan (data ?c)]"
  let ?calls = "[OnChild 2 (DoSetStatus 2 None), OnChild 2 DoEnd, OnRoot DoEnd, OnChild 2 DoStart]"
  have op: "still_open ?r" by (simp add: still_open_def example_trace_root)
  have d: "deliver (Suc 0) (listeners ?r) [Call ThisRootSpan OnStartSpan (data ?c)] = Some ?out"
    using deliver_acyclic[OF example_trace_acyclic, of 0 "[Call ThisRootSpan OnStartSpan (data ?c)]"]
    by (simp add: example_trace_root)
  have create: "RootSpan_startChildSpan 1 example_clock 4 ''c'' None ''c3'' ?r =
      Some ((?r1, 5, ?out), Some 2)"
    unfolding RootSpan_startChildSpan_def startChildSpan_accepted[OF op]
    using d by (simp add: example_trace_root)
  have "ThisRootSpan \<notin> set (listeners (root \<lparr>root = ?r1, ticks = 5, observed = []\<rparr>))"
    using example_trace_acyclic by simp
  moreover have "OnRoot (DoRegister ThisRootSpan) \<notin> set ?calls" by simp
  ultimately obtain w where
    later: "invoke_all (Suc 0) example_clock ?calls \<lparr>root = ?r1, ticks = 5, observed = []\<rparr> = Some w"
    using invoke_all_returns by blast
  then have later': "invoke_all 1 example_clock ?calls \<lparr>root = ?r1, ticks = 5, observed = []\<rparr> = Some w"
    by simp
  note T = child_identity_fixed[OF create later']
  from create later' T show ?thesis by blast
qed

section \<open>The claim about the exporter buffer\<close>

lemma fold_addToBuffer_below:
  "length (queue b) + length records < bufferSize b \<Longrightarrow>
   fold addToBuffer records b =
     b\<lparr>queue := queue b @ records, timerPending := (timerPending b \<or> records \<noteq> [])\<rparr>"
proof (induction records arbitrary: b)
  case Nil
  then show ?case by simp
next
  case (Cons x xs)
  let ?b = "addToBuffer x b"
  have step: "?b = b\<lparr>queue := queue b @ [x], timerPending := True\<rparr>"
    using Cons.prems by (auto simp: addToBuffer_def Let_def)
  then have "length (queue ?b) + length xs < bufferSize ?b"
    using Cons.prems by simp
  then show ?case
    using Cons.IH[of ?b] by (simp add: step)
qed

text \<open>
  The test \<open>should force flush\<close> expects the queue to hold \<open>bufferSize\<close> records after
  \<open>bufferSize\<close> additions and to be empty after one more. The buffer as the specification
  words it is empty already after \<open>bufferSize\<close> additions, so it does not meet the first
  assertion of that test; the test says nothing on what is published.
\<close>

lemma should_force_flush_first_assertion:
  "\<not> should_force_flush addToBuffer [r1, r2, r3] r4"
  by (simp add: should_force_flush_def addToBuffer_def flush_def ExporterBuffer_new_def
        getQueue_def getBufferSize_def Let_def)

text \<open>
  C2. Once exactly \<open>bufferSize\<close> records have been added to a buffer whose queue was empty,
  \<open>publish\<close> has been called exactly once more, with one batch that holds all the records in
  the order they were added; the queue is empty and no timer is pending. \<open>bufferSize\<close> is
  positive, as the configuration requires.
\<close>

theorem addToBuffer_flushes_at_bufferSize:
  assumes "queue b = []" and "length records = bufferSize b" and "0 < bufferSize b"
  shows "published (fold addToBuffer records b) = published b @ [records] \<and>
         queue (fold addToBuffer records b) = [] \<and>
         \<not> timerPending (fold addToBuffer records b)"
proof -
  from assms obtain xs x where records: "records = xs @ [x]"
    by (cases records rule: rev_cases) auto
  have "length (queue b) + length xs < bufferSize b"
    using assms records by simp
  then have "fold addToBuffer xs b =
      b\<lparr>queue := queue b @ xs, timerPending := (timerPending b \<or> xs \<noteq> [])\<rparr>"
    by (rule fold_addToBuffer_below)
  then show ?thesis
    using assms records by (simp add: Let_def addToBuffer_def flush_def)
qed

theorem addToBuffer_flushes_at_bufferSize_witness:
  "queue (ExporterBuffer_new 3 2000) = [] \<and>
   length [example_record ''r1'', example_record ''r2'', example_record ''r3''] =
     bufferSize (ExporterBuffer_new 3 2000) \<and>
   0 < bufferSize (ExporterBuffer_new 3 2000) \<and>
   published (fold addToBuffer
       [example_record ''r1'', example_record ''r2'', example_record ''r3'']
       (ExporterBuffer_new 3 2000)) =
     published (ExporterBuffer_new 3 2000) @
       [[example_record ''r1'', example_record ''r2'', example_record ''r3'']] \<and>
   queue (fold addToBuffer
       [example_record ''r1'', example_record ''r2'', example_record ''r3'']
       (ExporterBuffer_new 3 2000)) = [] \<and>
   \<not> timerPending (fold addToBuffer
       [example_record ''r1'', example_record ''r2'', example_record ''r3'']
       (ExporterBuffer_new 3 2000))"
proof -
  have h1: "queue (ExporterBuffer_new 3 2000) = []"
    by (simp add: ExporterBuffer_new_def)
  have h2: "length [example_record ''r1'', example_record ''r2'', example_record ''r3''] =
     bufferSize (ExporterBuffer_new 3 2000)"
    by (simp add: ExporterBuffer_new_def)
  have h3: "0 < bufferSize (ExporterBuffer_new 3 2000)"
    by (simp add: ExporterBuffer_new_def)
  note T = addToBuffer_flushes_at_bufferSize[OF h1 h2 h3]
  from h1 h2 h3 T show ?thesis by blast
qed

end
